theory Spec2Isabelle
  imports Complex_Main "HOL-Library.AList" "HOL-Library.Sublist"
begin

section \<open>Python values and exceptions\<close>

text \<open>
  Exceptions are values: every function of the module that can raise returns
  \<open>error + 'a\<close>, with \<open>Inl\<close> for the exception. \<open>KeyError\<close> is the
  \<open>LookupError\<close> subclass a failed dictionary lookup raises, \<open>IndexError\<close> the
  one a sequence index out of range raises, \<open>ValueError\<close> is what NumPy and
  \<open>random.sample\<close> raise on arguments they reject, and \<open>Raised msg\<close> stands for
  whatever exception an injected prediction function raises. \<open>UnknownLabel\<close> stands
  for the exception the label encoder raises when it is asked for the column of a label
  it does not hold: the spec calls it a \<open>LookupError\<close>-class error, and its Python
  class is decided in the encoder's library, so the model gives it a name of its own.
\<close>

datatype error = KeyError | ValueError | IndexError | UnknownLabel | Raised string

text \<open>
  A list comprehension \<open>[f(x) for x in xs]\<close> whose body may raise: elements are
  evaluated from left to right and the first exception ends the evaluation. The same
  function models the consumption of a lazy \<open>map(f, xs)\<close> by \<open>list\<close>.
\<close>

fun map_raise :: "('a \<Rightarrow> error + 'b) \<Rightarrow> 'a list \<Rightarrow> error + 'b list" where
  "map_raise f [] = Inr []"
| "map_raise f (x # xs) =
     (case f x of
        Inl e \<Rightarrow> Inl e
      | Inr y \<Rightarrow> (case map_raise f xs of Inl e \<Rightarrow> Inl e | Inr ys \<Rightarrow> Inr (y # ys)))"

section \<open>Fixture utilities\<close>

subsection \<open>The random source\<close>

text \<open>
  The module draws from Python's global \<open>random\<close> state. The state is threaded
  explicitly (type \<open>'g\<close>), and the two draws the module makes are parameters:
  \<open>randbelow g n\<close> is the index \<open>random.choice\<close> draws for a sequence of length
  \<open>n\<close>, and \<open>sample_range g n r\<close> is \<open>random.sample(range(n), r)\<close> for
  \<open>0 \<le> r \<le> n\<close>. Both return the next state.
\<close>

record 'g random_source =
  randbelow :: "'g \<Rightarrow> nat \<Rightarrow> nat \<times> 'g"
  sample_range :: "'g \<Rightarrow> nat \<Rightarrow> nat \<Rightarrow> nat list \<times> 'g"

text \<open>
  The contract of the library draws: an index below the length, and \<open>r\<close> distinct
  elements of \<open>range(n)\<close>.
\<close>

definition valid_random_source :: "'g random_source \<Rightarrow> bool" where
  "valid_random_source R \<longleftrightarrow>
     (\<forall>g n. 0 < n \<longrightarrow> fst (randbelow R g n) < n) \<and>
     (\<forall>g n r. r \<le> n \<longrightarrow>
        length (fst (sample_range R g n r)) = r \<and>
        distinct (fst (sample_range R g n r)) \<and>
        set (fst (sample_range R g n r)) \<subseteq> {..<n})"

definition ascii_lowercase :: string where
  "ascii_lowercase = ''abcdefghijklmnopqrstuvwxyz''"

definition digits :: string where
  "digits = ''0123456789''"

text \<open>\<open>random.choice(seq)\<close> is \<open>seq[randbelow(len(seq))]\<close>.\<close>

definition random_choice :: "'g random_source \<Rightarrow> 'g \<Rightarrow> 'a list \<Rightarrow> 'a \<times> 'g" where
  "random_choice R g seq = (let (i, g') = randbelow R g (length seq) in (seq ! i, g'))"

text \<open>
  \<open>random.sample(population, k)\<close> raises \<open>ValueError\<close> when \<open>k\<close> is negative or
  larger than the population.
\<close>

definition random_sample_range :: "'g random_source \<Rightarrow> 'g \<Rightarrow> nat \<Rightarrow> int \<Rightarrow> error + (nat list \<times> 'g)" where
  "random_sample_range R g n r =
     (if r < 0 \<or> int n < r then Inl ValueError else Inr (sample_range R g n (nat r)))"

subsection \<open>corrupt\<close>

text \<open>
  The argument of \<open>corrupt\<close> is annotated \<open>Union[Iterable[str], str]\<close>. \<open>PyNone\<close>
  stands for an object that is not iterable, the only kind of argument that reaches the
  last line of \<open>corrupt\<close>.
\<close>

datatype pyobj = PyStr string | PyList "string list" | PyNone

text \<open>
  \<open>isinstance(names, Iterable)\<close>: a \<open>str\<close> defines \<open>__iter__\<close>, so it is an
  instance of \<open>Iterable\<close> as a list is.
\<close>

fun isinstance_Iterable :: "pyobj \<Rightarrow> bool" where
  "isinstance_Iterable (PyStr s) = True"
| "isinstance_Iterable (PyList ss) = True"
| "isinstance_Iterable PyNone = False"

text \<open>
  Iterating a \<open>str\<close> yields its characters as one-character strings. \<open>corrupt\<close>
  iterates only an object that passed the \<open>isinstance\<close> test, so no equation is given
  for the other one.
\<close>

fun py_iter :: "pyobj \<Rightarrow> string list" where
  "py_iter (PyStr s) = map (\<lambda>c. [c]) s"
| "py_iter (PyList ss) = ss"

text \<open>
  The text an f-string field \<open>{name}\<close> inserts. Only the values \<open>corrupt_one\<close> can
  receive are covered: a string (an element of the iterable), or the object that is not
  iterable.
\<close>

fun py_format :: "pyobj \<Rightarrow> string" where
  "py_format (PyStr s) = s"
| "py_format PyNone = ''None''"

definition corrupt_one :: "'g random_source \<Rightarrow> 'g \<Rightarrow> pyobj \<Rightarrow> string \<times> 'g" where
  "corrupt_one R g name =
     (let (c, g') = random_choice R g (ascii_lowercase @ digits) in (c # py_format name, g'))"

text \<open>\<open>[corrupt_one(s) for s in names]\<close>, the random state passing from one element to the next.\<close>

fun corrupt_each :: "'g random_source \<Rightarrow> 'g \<Rightarrow> string list \<Rightarrow> string list \<times> 'g" where
  "corrupt_each R g [] = ([], g)"
| "corrupt_each R g (s # ss) =
     (let (t, g1) = corrupt_one R g (PyStr s);
          (ts, g2) = corrupt_each R g1 ss
      in (t # ts, g2))"

definition corrupt :: "'g random_source \<Rightarrow> 'g \<Rightarrow> pyobj \<Rightarrow> pyobj \<times> 'g" where
  "corrupt R g names =
     (if isinstance_Iterable names
      then (let (out, g') = corrupt_each R g (py_iter names) in (PyList out, g'))
      else (let (out, g') = corrupt_one R g names in (PyStr out, g')))"

subsection \<open>random_combinations\<close>

text \<open>
  \<open>[pool[i] for i in sorted(random.sample(range(len(pool)), r))]\<close>; an index outside
  the pool raises \<open>IndexError\<close>.
\<close>

definition random_combination :: "'g random_source \<Rightarrow> 'g \<Rightarrow> 'a list \<Rightarrow> int \<Rightarrow> error + ('a list \<times> 'g)" where
  "random_combination R g pool r =
     (case random_sample_range R g (length pool) r of
        Inl e \<Rightarrow> Inl e
      | Inr (idx, g') \<Rightarrow>
          (case map_raise (\<lambda>i. if i < length pool then Inr (pool ! i) else Inl IndexError) (sort idx) of
             Inl e \<Rightarrow> Inl e
           | Inr c \<Rightarrow> Inr (c, g')))"

text \<open>\<open>[random_combination(i) for i in sizes]\<close>, the random state passing along.\<close>

fun random_combination_each :: "'g random_source \<Rightarrow> 'g \<Rightarrow> 'a list \<Rightarrow> int list \<Rightarrow> error + ('a list list \<times> 'g)" where
  "random_combination_each R g pool [] = Inr ([], g)"
| "random_combination_each R g pool (i # sizes) =
     (case random_combination R g pool i of
        Inl e \<Rightarrow> Inl e
      | Inr (c, g1) \<Rightarrow>
          (case random_combination_each R g1 pool sizes of
             Inl e \<Rightarrow> Inl e
           | Inr (cs, g2) \<Rightarrow> Inr (c # cs, g2)))"

definition random_combinations :: "'g random_source \<Rightarrow> 'g \<Rightarrow> 'a list \<Rightarrow> int \<Rightarrow> error + ('a list list \<times> 'g)" where
  "random_combinations R g iterable start =
     (let pool = iterable;
          start' = min (int (length pool)) (max 0 start)
      in random_combination_each R g pool [start' .. int (length pool)])"

section \<open>The classifier built from a callable\<close>

subsection \<open>Instances, score matrices and the label encoder\<close>

text \<open>
  An instance is read through its identifier and its data only; the data type \<open>DT\<close>
  of the module is \<open>str\<close>.
\<close>

record 'k Instance =
  "identifier" :: 'k
  data :: string

text \<open>
  A two-dimensional \<open>np.ndarray\<close> of scores is the list of its rows. Scores are
  real numbers: the module only compares and copies them, and a NaN score is outside the
  model. The number of columns of an array without rows is not represented.
\<close>

type_synonym ndarray = "real list list"

text \<open>
  \<open>np.vstack\<close> of one-dimensional arrays: each becomes a row; no array at all, or
  arrays of different lengths, raise \<open>ValueError\<close>.
\<close>

definition vstack :: "real list list \<Rightarrow> error + ndarray" where
  "vstack arrays =
     (if arrays = [] then Inl ValueError
      else if list_ex (\<lambda>a. length a \<noteq> length (hd arrays)) arrays then Inl ValueError
      else Inr arrays)"

text \<open>
  \<open>np.argmax\<close> of one row: the index of the first occurrence of the maximum;
  \<open>ValueError\<close> on a row without elements. \<open>argmax_scan best v i xs\<close> scans the rest
  \<open>xs\<close> of the row, which starts at index \<open>i\<close>, holding the index \<open>best\<close> of the
  largest value \<open>v\<close> seen so far; only a strictly larger value replaces it.
\<close>

fun argmax_scan :: "nat \<Rightarrow> real \<Rightarrow> nat \<Rightarrow> real list \<Rightarrow> nat" where
  "argmax_scan best v i [] = best"
| "argmax_scan best v i (x # xs) =
     (if v < x then argmax_scan i x (Suc i) xs else argmax_scan best v (Suc i) xs)"

fun argmax :: "real list \<Rightarrow> error + nat" where
  "argmax [] = Inl ValueError"
| "argmax (x # xs) = Inr (argmax_scan 0 x 1 xs)"

text \<open>\<open>np.argmax(y, axis=1)\<close>: one index per row.\<close>

definition argmax_axis1 :: "ndarray \<Rightarrow> error + nat list" where
  "argmax_axis1 y = map_raise argmax y"

text \<open>
  A Python \<open>dict\<close> is an association list in insertion order; storing under a key that
  is present replaces its value in place (\<open>AList.update\<close>). The dictionary
  comprehension \<open>{label: i for i, label in enumerate(labels)}\<close> stores the pairs from
  left to right.
\<close>

definition enumerate_dict :: "'l list \<Rightarrow> ('l \<times> nat) list" where
  "enumerate_dict labels = fold (\<lambda>(i, label) d. AList.update label i d) (enumerate 0 labels) []"

text \<open>
  Modelled from the spec: the label encoder \<open>DictionaryEncoder\<close> belongs to the
  instance library and is not among the sources. The spec describes it as a mapping
  from labels to dense column indices, contiguous from 0, that returns the column index
  of a label and fails on an unknown label, that decodes a row of scores into the set of
  (label, score) pairs, and a column index into the set holding its label. It is built
  from the dictionary and keeps the inverse dictionary for decoding.
\<close>

record 'l DictionaryEncoder =
  mapping :: "('l \<times> nat) list"
  inv_mapping :: "(nat \<times> 'l) list"

definition invert_mapping :: "('a \<times> 'b) list \<Rightarrow> ('b \<times> 'a) list" where
  "invert_mapping m = fold (\<lambda>(k, v) d. AList.update v k d) m []"

definition DictionaryEncoder_init :: "('l \<times> nat) list \<Rightarrow> 'l DictionaryEncoder" where
  "DictionaryEncoder_init m = \<lparr>mapping = m, inv_mapping = invert_mapping m\<rparr>"

text \<open>
  Modelled from the spec: the labels of the encoder in the order of their columns. The
  columns are dense and contiguous from 0, so the labels are ordered by the value the
  dictionary gives them and the column of a label is its position in that order. For a
  dictionary whose values are \<open>0, \<dots>, n - 1\<close> the column of a label is its value.
\<close>

definition encoder_labels :: "'l DictionaryEncoder \<Rightarrow> 'l list" where
  "encoder_labels enc = map fst (sort_key snd (mapping enc))"

text \<open>The position of the first occurrence of an element, if there is one.\<close>

fun index_of :: "'a list \<Rightarrow> 'a \<Rightarrow> nat option" where
  "index_of [] x = None"
| "index_of (y # ys) x = (if y = x then Some 0 else map_option Suc (index_of ys x))"

definition encoder_get_label_column_index :: "'l DictionaryEncoder \<Rightarrow> 'l \<Rightarrow> error + nat" where
  "encoder_get_label_column_index enc label =
     (case index_of (encoder_labels enc) label of None \<Rightarrow> Inl UnknownLabel | Some i \<Rightarrow> Inr i)"

definition decode_vector :: "'l DictionaryEncoder \<Rightarrow> nat \<Rightarrow> error + 'l set" where
  "decode_vector enc i =
     (case map_of (inv_mapping enc) i of None \<Rightarrow> Inl KeyError | Some label \<Rightarrow> Inr {label})"

definition decode_matrix :: "'l DictionaryEncoder \<Rightarrow> nat list \<Rightarrow> error + 'l set list" where
  "decode_matrix enc idx = map_raise (decode_vector enc) idx"

definition decode_proba_vector :: "'l DictionaryEncoder \<Rightarrow> real list \<Rightarrow> ('l \<times> real) set" where
  "decode_proba_vector enc row =
     set (map (\<lambda>(label, i). (label, row ! i)) (filter (\<lambda>(label, i). i < length row) (mapping enc)))"

definition decode_proba_matrix :: "'l DictionaryEncoder \<Rightarrow> ndarray \<Rightarrow> ('l \<times> real) set list" where
  "decode_proba_matrix enc y = map (decode_proba_vector enc) y"

text \<open>
  Modelled from the spec: \<open>divide_iterable_in_lists\<close> belongs to the instance library
  and is not among the sources. It partitions the sequence into contiguous batches no
  larger than the batch size, in the original order: it takes up to \<open>batch_size\<close>
  elements at a time and stops when nothing is left to take. The spec requires a positive
  batch size; what the library does with batch size 0 is outside the model, and every
  statement about batches below assumes a batch size of at least 1.
\<close>

function divide_iterable_in_lists :: "'a list \<Rightarrow> nat \<Rightarrow> 'a list list" where
  "divide_iterable_in_lists xs batch_size =
     (if take batch_size xs = [] then []
      else take batch_size xs # divide_iterable_in_lists (drop batch_size xs) batch_size)"
  by pat_completeness auto
termination
  by (relation "measure (\<lambda>(xs, batch_size). length xs)") auto

declare divide_iterable_in_lists.simps [simp del]

text \<open>
  Modelled from the spec: \<open>zip_chain\<close> belongs to the instance library and is not
  among the sources. It pairs the keys of each batch with the decoded rows of that batch
  and concatenates the batches in order.
\<close>

definition zip_chain :: "('a list \<times> 'b list) list \<Rightarrow> ('a \<times> 'b) list" where
  "zip_chain batches = concat (map (\<lambda>(keys, ys). zip keys ys) batches)"

subsection \<open>The class\<close>

record 'l DeterministicTextClassifier =
  predict_function :: "string list \<Rightarrow> error + ndarray"
  encoder :: "'l DictionaryEncoder"

definition set_target_labels :: "'l DeterministicTextClassifier \<Rightarrow> 'l list \<Rightarrow> 'l DeterministicTextClassifier" where
  "set_target_labels self labels = self\<lparr>encoder := DictionaryEncoder_init (enumerate_dict labels)\<rparr>"

text \<open>
  \<open>__init__\<close> stores the function and calls \<open>set_target_labels\<close>, which creates the
  encoder attribute.
\<close>

definition init :: "(string list \<Rightarrow> error + ndarray) \<Rightarrow> 'l list \<Rightarrow> 'l DeterministicTextClassifier" where
  "init f target_labels =
     \<lparr>predict_function = f, encoder = DictionaryEncoder_init (enumerate_dict target_labels)\<rparr>"

definition batched_predict_function :: "(string \<Rightarrow> error + real list) \<Rightarrow> string list \<Rightarrow> error + ndarray" where
  "batched_predict_function f instances =
     (case map_raise f instances of Inl e \<Rightarrow> Inl e | Inr arrays \<Rightarrow> vstack arrays)"

definition from_callable :: "(string \<Rightarrow> error + real list) \<Rightarrow> 'l list \<Rightarrow> 'l DeterministicTextClassifier" where
  "from_callable f target_labels = init (batched_predict_function f) target_labels"

definition from_batched_callable :: "(string list \<Rightarrow> error + ndarray) \<Rightarrow> 'l list \<Rightarrow> 'l DeterministicTextClassifier" where
  "from_batched_callable f target_labels = init f target_labels"

text \<open>
  A method that changes no attribute returns its result only; \<open>fit_instances\<close> and
  \<open>fit_provider\<close> return \<open>None\<close> (the unit value) together with the object, so that
  the state after the call can be compared with the state before.
\<close>

definition fit_instances :: "'l DeterministicTextClassifier \<Rightarrow> 'k Instance list \<Rightarrow> 'l list list
    \<Rightarrow> error + (unit \<times> 'l DeterministicTextClassifier)" where
  "fit_instances self instances labels = Inr ((), self)"

text \<open>
  A provider is an ordered collection of instances under their keys; \<open>values()\<close>
  lists the instances. A label provider gives the labels of each key.
\<close>

type_synonym 'k provider = "('k \<times> 'k Instance) list"

definition provider_values :: "'k provider \<Rightarrow> 'k Instance list" where
  "provider_values provider = map snd provider"

definition fit_provider :: "'l DeterministicTextClassifier \<Rightarrow> 'k provider \<Rightarrow> ('k \<times> 'l set) list \<Rightarrow> nat
    \<Rightarrow> error + (unit \<times> 'l DeterministicTextClassifier)" where
  "fit_provider self provider labels batch_size = Inr ((), self)"

definition pred_proba_batch_raw :: "'l DeterministicTextClassifier \<Rightarrow> 'k Instance list \<Rightarrow> error + ('k list \<times> ndarray)" where
  "pred_proba_batch_raw self batch =
     (let x_keys = map identifier batch;
          x_instances = map data batch
      in case predict_function self x_instances of
           Inl e \<Rightarrow> Inl e
         | Inr y_pred \<Rightarrow> Inr (x_keys, y_pred))"

definition pred_proba_batch :: "'l DeterministicTextClassifier \<Rightarrow> 'k Instance list
    \<Rightarrow> error + ('k list \<times> ('l \<times> real) set list)" where
  "pred_proba_batch self batch =
     (case pred_proba_batch_raw self batch of
        Inl e \<Rightarrow> Inl e
      | Inr (x_keys, y_pred) \<Rightarrow> Inr (x_keys, decode_proba_matrix (encoder self) y_pred))"

definition pred_batch :: "'l DeterministicTextClassifier \<Rightarrow> 'k Instance list \<Rightarrow> error + ('k list \<times> 'l set list)" where
  "pred_batch self batch =
     (case pred_proba_batch_raw self batch of
        Inl e \<Rightarrow> Inl e
      | Inr (x_keys, y_pred) \<Rightarrow>
          (case argmax_axis1 y_pred of
             Inl e \<Rightarrow> Inl e
           | Inr idx \<Rightarrow>
               (case decode_matrix (encoder self) idx of
                  Inl e \<Rightarrow> Inl e
                | Inr decoded \<Rightarrow> Inr (x_keys, decoded))))"

definition fitted :: "'l DeterministicTextClassifier \<Rightarrow> bool" where
  "fitted self = True"

definition name :: "'l DeterministicTextClassifier \<Rightarrow> string" where
  "name self = ''DeterministicTextClassifier''"

definition get_label_column_index :: "'l DeterministicTextClassifier \<Rightarrow> 'l \<Rightarrow> error + nat" where
  "get_label_column_index self label = encoder_get_label_column_index (encoder self) label"

text \<open>
  \<open>predict_proba_instances_raw\<close> is a generator. It is represented by the list of the
  outcomes of its successive steps, one per batch: a consumer receives the pairs up to
  the first step that raises.
\<close>

definition predict_proba_instances_raw :: "'l DeterministicTextClassifier \<Rightarrow> 'k Instance list \<Rightarrow> nat
    \<Rightarrow> (error + ('k list \<times> ndarray)) list" where
  "predict_proba_instances_raw self instances batch_size =
     (let batches = divide_iterable_in_lists instances batch_size
      in map (pred_proba_batch_raw self) batches)"

definition predict_proba_instances :: "'l DeterministicTextClassifier \<Rightarrow> 'k Instance list \<Rightarrow> nat
    \<Rightarrow> error + ('k \<times> ('l \<times> real) set) list" where
  "predict_proba_instances self instances batch_size =
     (let batches = divide_iterable_in_lists instances batch_size
      in case map_raise (pred_proba_batch self) batches of
           Inl e \<Rightarrow> Inl e
         | Inr processed \<Rightarrow> Inr (zip_chain processed))"

definition predict_instances :: "'l DeterministicTextClassifier \<Rightarrow> 'k Instance list \<Rightarrow> nat
    \<Rightarrow> error + ('k \<times> 'l set) list" where
  "predict_instances self instances batch_size =
     (let batches = divide_iterable_in_lists instances batch_size
      in case map_raise (pred_batch self) batches of
           Inl e \<Rightarrow> Inl e
         | Inr processed \<Rightarrow> Inr (zip_chain processed))"

definition predict_provider :: "'l DeterministicTextClassifier \<Rightarrow> 'k provider \<Rightarrow> nat
    \<Rightarrow> error + ('k \<times> 'l set) list" where
  "predict_provider self provider batch_size =
     predict_instances self (provider_values provider) batch_size"

definition predict_proba_provider_raw :: "'l DeterministicTextClassifier \<Rightarrow> 'k provider \<Rightarrow> nat
    \<Rightarrow> (error + ('k list \<times> ndarray)) list" where
  "predict_proba_provider_raw self provider batch_size =
     predict_proba_instances_raw self (provider_values provider) batch_size"

definition predict_proba_provider :: "'l DeterministicTextClassifier \<Rightarrow> 'k provider \<Rightarrow> nat
    \<Rightarrow> error + ('k \<times> ('l \<times> real) set) list" where
  "predict_proba_provider self provider batch_size =
     predict_proba_instances self (provider_values provider) batch_size"

subsection \<open>The test model of the module\<close>

definition predict_fn :: "string \<Rightarrow> error + real list" where
  \<open>predict_fn instance =
     Inr (if list_ex (\<lambda>c. c \<in> set instance) ''!"#$%&()*+,-./:;<=>?@[^_`~aA''
          then [0.7, 0.3] else [0.3, 0.7])\<close>

definition TEST_MODEL :: "string DeterministicTextClassifier" where
  "TEST_MODEL = from_callable predict_fn [''punctuation'', ''no_punctuation'']"

section \<open>Statements about prediction functions\<close>

text \<open>
  The outcome of a prediction function on a batch has the shape the classifier expects
  when it is a matrix with one row for every instance of the batch and one column for
  every label.
\<close>

definition well_shaped :: "nat \<Rightarrow> nat \<Rightarrow> error + ndarray \<Rightarrow> bool" where
  "well_shaped n_rows n_cols out =
     (case out of Inl e \<Rightarrow> False
      | Inr y \<Rightarrow> length y = n_rows \<and> list_all (\<lambda>row. length row = n_cols) y)"

text \<open>
  A prediction function scores each instance on its own when the row it returns for an
  instance is a function \<open>g\<close> of that instance alone, whatever else is in the batch, and
  every row has \<open>n\<close> columns. The function \<open>from_callable\<close> builds is of this kind.
\<close>

definition scores_each_instance :: "(string list \<Rightarrow> error + ndarray) \<Rightarrow> (string \<Rightarrow> real list) \<Rightarrow> nat \<Rightarrow> bool" where
  "scores_each_instance f g n \<longleftrightarrow>
     (\<forall>instances. instances \<noteq> [] \<longrightarrow> f instances = Inr (map g instances)) \<and> (\<forall>d. length (g d) = n)"

text \<open>
  What \<open>pred_batch\<close> does to one row: the index of the maximum, then the label of that
  index.
\<close>

definition predict_row :: "'l DictionaryEncoder \<Rightarrow> real list \<Rightarrow> error + 'l set" where
  "predict_row enc row = (case argmax row of Inl e \<Rightarrow> Inl e | Inr i \<Rightarrow> decode_vector enc i)"

section \<open>Concrete inputs\<close>

text \<open>
  A batched prediction function whose scores depend on the batch: the second column of
  every row is the number of instances in the batch.
\<close>

definition batch_length_scores :: "string list \<Rightarrow> error + ndarray" where
  "batch_length_scores instances = Inr (map (\<lambda>d. [1, real (length instances)]) instances)"

definition batch_length_model :: "string DeterministicTextClassifier" where
  "batch_length_model = from_batched_callable batch_length_scores [''first'', ''second'']"

definition two_instances :: "nat Instance list" where
  "two_instances = [\<lparr>identifier = 0, data = ''x''\<rparr>, \<lparr>identifier = 1, data = ''y''\<rparr>]"

definition three_instances :: "nat Instance list" where
  "three_instances =
     [\<lparr>identifier = 0, data = ''!''\<rparr>, \<lparr>identifier = 1, data = ''z''\<rparr>, \<lparr>identifier = 2, data = ''a''\<rparr>]"

definition one_instance :: "nat Instance list" where
  "one_instance = [\<lparr>identifier = 0, data = ''x''\<rparr>]"

text \<open>A per-instance function that returns a score vector without elements.\<close>

definition no_scores :: "string \<Rightarrow> error + real list" where
  "no_scores instance = Inr []"

text \<open>
  A per-instance function whose score vectors differ in length: one score for the
  instance \<open>x\<close>, two for any other.
\<close>

definition ragged_scores :: "string \<Rightarrow> error + real list" where
  "ragged_scores instance = Inr (if instance = ''x'' then [1] else [1, 2])"

text \<open>A batched prediction function that raises.\<close>

definition raising_scores :: "string list \<Rightarrow> error + ndarray" where
  "raising_scores instances = Inl (Raised ''boom'')"

text \<open>
  A random source that always draws the last index, and samples the last \<open>r\<close> indices
  of the range, largest first.
\<close>

definition last_first_source :: "unit random_source" where
  "last_first_source =
     \<lparr>randbelow = (\<lambda>g n. (n - 1, g)), sample_range = (\<lambda>g n r. (take r (rev [0..<n]), g))\<rparr>"


section \<open>Comprehensions that may raise\<close>

lemma map_raise_append:
  "map_raise f (xs @ ys) =
     (case map_raise f xs of Inl e \<Rightarrow> Inl e
      | Inr a \<Rightarrow> (case map_raise f ys of Inl e \<Rightarrow> Inl e | Inr b \<Rightarrow> Inr (a @ b)))"
  by (induction xs) (auto split: sum.splits)

lemma map_raise_Inr_iff:
  "map_raise f xs = Inr ys \<longleftrightarrow> list_all2 (\<lambda>x y. f x = Inr y) xs ys"
proof (induction xs arbitrary: ys)
  case Nil
  then show ?case by auto
next
  case (Cons x xs)
  show ?case
    by (cases ys) (auto split: sum.splits simp: Cons.IH[symmetric])
qed

lemma map_raise_total:
  "map_raise (\<lambda>x. Inr (g x)) xs = Inr (map g xs)"
  by (induction xs) auto

lemma map_raise_Inl:
  "map_raise f xs = Inl e \<Longrightarrow> \<exists>x \<in> set xs. f x = Inl e"
  by (induction xs) (auto split: sum.splits)

lemma map_raise_map: "map_raise f (map h xs) = map_raise (\<lambda>x. f (h x)) xs"
  by (induction xs) (simp_all split: sum.splits)

lemma map_raise_length: "map_raise f xs = Inr ys \<Longrightarrow> length ys = length xs"
  by (simp add: map_raise_Inr_iff list_all2_lengthD)

lemma map_raise_cong_set: "(\<And>x. x \<in> set xs \<Longrightarrow> f x = g x) \<Longrightarrow> map_raise f xs = map_raise g xs"
  by (induction xs) (simp_all split: sum.splits)

lemma map_raise_all_Inr:
  "(\<And>x. x \<in> set xs \<Longrightarrow> f x = Inr (g x)) \<Longrightarrow> map_raise f xs = Inr (map g xs)"
  by (induction xs) simp_all

lemma map_raise_Inr_mem:
  "map_raise f xs = Inr ys \<Longrightarrow> y \<in> set ys \<Longrightarrow> \<exists>x \<in> set xs. f x = Inr y"
proof (induction xs arbitrary: ys)
  case Nil
  then show ?case by simp
next
  case (Cons x xs)
  then show ?case by (auto split: sum.splits)
qed

lemma map_raise_Inr_image:
  "map_raise f xs = Inr ys \<Longrightarrow> x \<in> set xs \<Longrightarrow> \<exists>y \<in> set ys. f x = Inr y"
proof (induction xs arbitrary: ys)
  case Nil
  then show ?case by simp
next
  case (Cons x xs)
  then show ?case by (auto split: sum.splits)
qed

lemma map_raise_fails_iff:
  "(\<exists>e. map_raise f xs = Inl e) \<longleftrightarrow> (\<exists>x \<in> set xs. \<exists>e. f x = Inl e)"
proof (induction xs)
  case Nil
  then show ?case by simp
next
  case (Cons x xs)
  show ?case
  proof (cases "f x")
    case (Inl e)
    then show ?thesis by auto
  next
    case (Inr y)
    show ?thesis
    proof (cases "map_raise f xs")
      case (Inl e)
      with Cons.IH Inr show ?thesis by auto
    next
      case r: (Inr ys)
      with Cons.IH Inr show ?thesis by auto
    qed
  qed
qed

lemma map_raise_Nil_iff: "map_raise f xs = Inr [] \<longleftrightarrow> xs = []"
  by (cases xs) (simp_all split: sum.splits)

section \<open>Batches\<close>

lemma divide_concat: "0 < b \<Longrightarrow> concat (divide_iterable_in_lists xs b) = xs"
proof (induction xs b rule: divide_iterable_in_lists.induct)
  case (1 xs b)
  then show ?case
    by (subst divide_iterable_in_lists.simps) auto
qed

lemma divide_nonempty: "batch \<in> set (divide_iterable_in_lists xs b) \<Longrightarrow> batch \<noteq> [] \<and> length batch \<le> b"
proof (induction xs b rule: divide_iterable_in_lists.induct)
  case (1 xs b)
  from "1.prems" show ?case
    by (subst (asm) divide_iterable_in_lists.simps) (auto split: if_splits dest!: "1.IH"[rotated])
qed

lemma ceil_step: "0 < (b::nat) \<Longrightarrow> 0 < n \<Longrightarrow> Suc ((n - b + b - 1) div b) = (n + b - 1) div b"
proof (cases "n \<le> b")
  case True
  assume b: "0 < b" and n: "0 < n"
  from True b n have "(n + b - 1) div b = 1"
    by (intro div_nat_eqI) auto
  moreover from True b have "(n - b + b - 1) div b = 0" by simp
  ultimately show ?thesis by simp
next
  case False
  assume b: "0 < b"
  from False have e1: "n + b - 1 = (n - 1) + b" by arith
  from False have e2: "n - b + b - 1 = n - 1" by arith
  have "(n - 1 + b) div b = Suc ((n - 1) div b)"
    using b by simp
  then show ?thesis by (simp only: e1 e2)
qed

lemma divide_length: "0 < b \<Longrightarrow> length (divide_iterable_in_lists xs b) = (length xs + b - 1) div b"
proof (induction xs b rule: divide_iterable_in_lists.induct)
  case (1 xs b)
  show ?case
  proof (cases "xs = []")
    case True
    with "1.prems" show ?thesis by (subst divide_iterable_in_lists.simps) simp
  next
    case False
    with "1.prems" have ne: "take b xs \<noteq> []" by simp
    have "length (divide_iterable_in_lists xs b) = Suc (length (divide_iterable_in_lists (drop b xs) b))"
      using ne by (subst divide_iterable_in_lists.simps) simp
    also have "\<dots> = Suc ((length xs - b + b - 1) div b)"
      using "1.IH"[OF ne "1.prems"] by simp
    also have "\<dots> = (length xs + b - 1) div b"
      using False "1.prems" by (intro ceil_step) auto
    finally show ?thesis .
  qed
qed

lemma divide_nth:
  "k < length (divide_iterable_in_lists xs b) \<Longrightarrow>
   divide_iterable_in_lists xs b ! k = take b (drop (k * b) xs)"
proof (induction xs b arbitrary: k rule: divide_iterable_in_lists.induct)
  case (1 xs b)
  show ?case
  proof (cases "take b xs = []")
    case True
    with "1.prems" show ?thesis by (subst (asm) divide_iterable_in_lists.simps) simp
  next
    case False
    then have eq: "divide_iterable_in_lists xs b = take b xs # divide_iterable_in_lists (drop b xs) b"
      by (subst divide_iterable_in_lists.simps) simp
    show ?thesis
    proof (cases k)
      case 0
      then show ?thesis by (simp add: eq)
    next
      case (Suc j)
      with "1.prems" eq have "j < length (divide_iterable_in_lists (drop b xs) b)" by simp
      from "1.IH"[OF False this] Suc show ?thesis
        by (simp add: eq add.commute)
    qed
  qed
qed

lemma less_div_mult_add: "0 < (b::nat) \<Longrightarrow> m < (m div b) * b + b"
  using div_less_iff_less_mult[of b "m" "Suc (m div b)"] by simp

lemma real_div_le: "0 < (b::nat) \<Longrightarrow> n \<le> c * b \<Longrightarrow> real n / real b \<le> real c"
proof -
  assume b: "0 < b" and "n \<le> c * b"
  then have "real n \<le> real (c * b)" by (simp only: of_nat_le_iff)
  then have "real n \<le> real c * real b" by simp
  then show ?thesis using b by (simp add: pos_divide_le_eq)
qed

lemma real_div_gt: "0 < (b::nat) \<Longrightarrow> c * b < n + b \<Longrightarrow> real c - 1 < real n / real b"
proof -
  assume b: "0 < b" and "c * b < n + b"
  then have "real (c * b) < real (n + b)" by (simp only: of_nat_less_iff)
  then have "(real c - 1) * real b < real n" by (simp add: algebra_simps)
  then show ?thesis using b by (simp add: pos_less_divide_eq)
qed

lemma ceil_div:
  assumes b: "0 < (b::nat)"
  shows "int ((n + b - 1) div b) = \<lceil>real n / real b\<rceil>"
proof -
  define c where "c = (n + b - 1) div b"
  have lo: "c * b \<le> n + b - 1"
    unfolding c_def by simp
  have "n + b - 1 < c * b + b"
    unfolding c_def using b by (rule less_div_mult_add)
  with b have up': "n \<le> c * b" by simp
  have low': "c * b < n + b"
    using lo b by simp
  have "real n / real b \<le> real c"
    using b up' by (rule real_div_le)
  moreover have "real c - 1 < real n / real b"
    using b low' by (rule real_div_gt)
  ultimately have "\<lceil>real n / real b\<rceil> = int c"
    by (intro ceiling_unique) simp_all
  then show ?thesis by (simp add: c_def)
qed

lemma length_concat_batches:
  assumes "\<And>batch. batch \<in> set batches \<Longrightarrow> length (D batch) = length batch"
  shows "length (concat (map D batches)) = length (concat batches)"
  using assms by (induction batches) simp_all

lemma concat_batches_nth:
  "0 < b \<Longrightarrow> p < length xs \<Longrightarrow>
   (\<And>batch. batch \<in> set (divide_iterable_in_lists xs b) \<Longrightarrow> length (D batch) = length batch) \<Longrightarrow>
   concat (map D (divide_iterable_in_lists xs b)) ! p = D (take b (drop ((p div b) * b) xs)) ! (p mod b)"
proof (induction xs b arbitrary: p rule: divide_iterable_in_lists.induct)
  case (1 xs b)
  from "1.prems" have xs: "xs \<noteq> []" by auto
  from "1.prems" have b0: "b \<noteq> 0" by simp
  from b0 xs have ne: "take b xs \<noteq> []" by simp
  then have eq: "divide_iterable_in_lists xs b = take b xs # divide_iterable_in_lists (drop b xs) b"
    by (subst divide_iterable_in_lists.simps) simp
  have first: "length (D (take b xs)) = length (take b xs)"
    by (rule "1.prems"(3)) (simp add: eq)
  show ?case
  proof (cases "p < b")
    case True
    with "1.prems" have "p < length (D (take b xs))" by (simp add: first)
    with True show ?thesis by (simp add: eq nth_append)
  next
    case nlt: False
    with "1.prems" have len: "length (D (take b xs)) = b" by (simp add: first)
    from nlt "1.prems" have p': "p - b < length (drop b xs)" by simp
    have d: "(p - b) div b = p div b - 1" using nlt b0 by (simp add: le_div_geq)
    have m: "(p - b) mod b = p mod b" using nlt by (simp add: le_mod_geq)
    have pos: "1 \<le> p div b" using nlt b0 by (simp add: le_div_geq)
    from pos have "(p div b - 1) * b + b = p div b * b"
      by (cases "p div b") simp_all
    then have dr: "drop ((p div b - 1) * b) (drop b xs) = drop (p div b * b) xs"
      by (simp add: add.commute)
    have "concat (map D (divide_iterable_in_lists (drop b xs) b)) ! (p - b)
            = D (take b (drop (((p - b) div b) * b) (drop b xs))) ! ((p - b) mod b)"
      using ne "1.prems"(1) p'
    proof (rule "1.IH")
      fix batch assume "batch \<in> set (divide_iterable_in_lists (drop b xs) b)"
      then show "length (D batch) = length batch"
        by (intro "1.prems"(3)) (simp add: eq)
    qed
    with d m dr nlt show ?thesis
      by (simp add: eq nth_append len)
  qed
qed

lemma divide_batch_of:
  assumes b: "0 < b" and p: "p < length xs"
  shows "take b (drop (p div b * b) xs) \<in> set (divide_iterable_in_lists xs b)"
proof -
  from p have "p div b \<le> (length xs - 1) div b" by (intro div_le_mono) simp
  also have "\<dots> < Suc ((length xs - 1) div b)" by simp
  also have "Suc ((length xs - 1) div b) = (length xs - 1 + b) div b" using b by simp
  also have "\<dots> = (length xs + b - 1) div b" using p by simp
  finally have "p div b < length (divide_iterable_in_lists xs b)"
    using b by (simp add: divide_length)
  then show ?thesis
    by (metis divide_nth nth_mem)
qed

section \<open>The dictionary of the encoder\<close>

lemma fold_update_fresh:
  "distinct ls \<Longrightarrow> set ls \<inter> fst ` set d = {} \<Longrightarrow>
   fold (\<lambda>(i, label) d. AList.update label i d) (enumerate n ls) d = d @ zip ls [n..<n + length ls]"
proof (induction ls arbitrary: n d)
  case Nil
  then show ?case by simp
next
  case (Cons l ls)
  from Cons.prems have fresh: "l \<notin> fst ` set d" by auto
  then have upd: "AList.update l n d = d @ [(l, n)]"
    by (induction d) auto
  have "set ls \<inter> fst ` set (d @ [(l, n)]) = {}"
    using Cons.prems by auto
  with Cons.prems Cons.IH[of "d @ [(l, n)]" "Suc n"]
  have "fold (\<lambda>(i, label) d. AList.update label i d) (enumerate (Suc n) ls) (d @ [(l, n)])
          = (d @ [(l, n)]) @ zip ls [Suc n..<Suc n + length ls]"
    by simp
  moreover have "[n..<n + length (l # ls)] = n # [Suc n..<Suc n + length ls]"
    by (simp add: upt_conv_Cons del: upt_Suc)
  ultimately show ?case
    by (simp add: upd del: upt_Suc)
qed

lemma enumerate_dict_distinct:
  "distinct ls \<Longrightarrow> enumerate_dict ls = zip ls [0..<length ls]"
  using fold_update_fresh[of ls "[]" 0] by (simp add: enumerate_dict_def)

lemma fold_invert_fresh:
  "distinct (map snd m) \<Longrightarrow> snd ` set m \<inter> fst ` set d = {} \<Longrightarrow>
   fold (\<lambda>(k, v) d. AList.update v k d) m d = d @ map (\<lambda>(k, v). (v, k)) m"
proof (induction m arbitrary: d)
  case Nil
  then show ?case by simp
next
  case (Cons p m)
  obtain k v where p: "p = (k, v)" by (cases p)
  from Cons.prems p have fresh: "v \<notin> fst ` set d" by auto
  then have upd: "AList.update v k d = d @ [(v, k)]"
    by (induction d) auto
  have "snd ` set m \<inter> fst ` set (d @ [(v, k)]) = {}"
    using Cons.prems p by (auto simp: image_iff)
  with Cons.prems Cons.IH[of "d @ [(v, k)]"] show ?case
    by (simp add: p upd)
qed

lemma map_swap_zip: "map (\<lambda>(k, v). (v, k)) (zip xs ys) = zip ys xs"
  by (induction xs ys rule: list_induct2') simp_all

lemma invert_enumerate_dict:
  "distinct ls \<Longrightarrow> invert_mapping (enumerate_dict ls) = zip [0..<length ls] ls"
proof -
  assume d: "distinct ls"
  have "map snd (zip ls [0..<length ls]) = [0..<length ls]" by simp
  then have "distinct (map snd (zip ls [0..<length ls]))" by (simp only: distinct_upt)
  then have "invert_mapping (zip ls [0..<length ls]) = map (\<lambda>(k, v). (v, k)) (zip ls [0..<length ls])"
    using fold_invert_fresh[of "zip ls [0..<length ls]" "[]"] by (simp add: invert_mapping_def)
  also have "\<dots> = zip [0..<length ls] ls"
    by (rule map_swap_zip)
  finally show ?thesis by (simp add: enumerate_dict_distinct d)
qed

lemma inv_lookup:
  "distinct ls \<Longrightarrow> j < length ls \<Longrightarrow> map_of (invert_mapping (enumerate_dict ls)) j = Some (ls ! j)"
  using map_of_zip_nth[of "[0..<length ls]" ls j] by (simp add: invert_enumerate_dict)

lemma fold_update_distinct:
  "distinct (map fst d) \<Longrightarrow> distinct (map fst (fold (\<lambda>(i, label) d. AList.update label i d) ps d))"
  by (induction ps arbitrary: d) (auto simp: distinct_update)

lemma fold_update_keys:
  "fst ` set (fold (\<lambda>(i, label) d. AList.update label i d) ps d) = fst ` set d \<union> snd ` set ps"
proof (induction ps arbitrary: d)
  case Nil
  then show ?case by simp
next
  case (Cons p ps)
  obtain i l where p: "p = (i, l)" by (cases p)
  show ?case
    by (simp add: p Cons.IH dom_update Un_assoc)
qed

lemma enumerate_dict_keys: "fst ` set (enumerate_dict ls) = set ls"
proof -
  have "snd ` set (enumerate 0 ls) = set (map snd (enumerate 0 ls))" by (simp only: set_map)
  also have "\<dots> = set ls" by (simp add: enumerate_eq_zip)
  finally show ?thesis by (simp add: enumerate_dict_def fold_update_keys)
qed

lemma enumerate_dict_distinct_keys: "distinct (map fst (enumerate_dict ls))"
  by (simp add: enumerate_dict_def fold_update_distinct)

lemma set_target_labels_simps:
  "predict_function (set_target_labels a labels) = predict_function a"
  "encoder (set_target_labels a labels) = DictionaryEncoder_init (enumerate_dict labels)"
  by (simp_all add: set_target_labels_def)

lemma index_of_None: "index_of xs x = None \<longleftrightarrow> x \<notin> set xs"
  by (induction xs) auto

lemma index_of_nth: "distinct xs \<Longrightarrow> j < length xs \<Longrightarrow> index_of xs (xs ! j) = Some j"
proof (induction xs arbitrary: j)
  case Nil
  then show ?case by simp
next
  case (Cons x xs)
  show ?case
  proof (cases j)
    case 0
    then show ?thesis by simp
  next
    case (Suc k)
    with Cons.prems have "k < length xs" and "xs ! k \<noteq> x" by auto
    with Cons.prems Cons.IH[of k] Suc show ?thesis by auto
  qed
qed

lemma encoder_labels_set: "set (encoder_labels enc) = fst ` set (mapping enc)"
  by (simp add: encoder_labels_def)

lemma encoder_labels_distinct:
  assumes "distinct ls"
  shows "encoder_labels (DictionaryEncoder_init (enumerate_dict ls)) = ls"
proof -
  have "sorted (map snd (zip ls [0..<length ls]))" by simp
  then have "sort_key snd (zip ls [0..<length ls]) = zip ls [0..<length ls]"
    by (rule sort_key_id_if_sorted)
  then show ?thesis
    by (simp add: encoder_labels_def DictionaryEncoder_init_def enumerate_dict_distinct[OF assms])
qed

lemma column_index_distinct:
  "distinct ls \<Longrightarrow> j < length ls \<Longrightarrow>
   encoder_get_label_column_index (DictionaryEncoder_init (enumerate_dict ls)) (ls ! j) = Inr j"
  by (simp add: encoder_get_label_column_index_def encoder_labels_distinct index_of_nth)

lemma known_label_column:
  assumes "label \<in> fst ` set (mapping (encoder self))"
  shows "\<exists>i. get_label_column_index self label = Inr i"
proof -
  from assms have "label \<in> set (encoder_labels (encoder self))" by (simp add: encoder_labels_set)
  then have "index_of (encoder_labels (encoder self)) label \<noteq> None" by (simp add: index_of_None)
  then show ?thesis
    by (auto simp: get_label_column_index_def encoder_get_label_column_index_def)
qed

lemma unknown_label_column:
  assumes "label \<notin> fst ` set (mapping (encoder self))"
  shows "get_label_column_index self label = Inl UnknownLabel"
proof -
  from assms have "label \<notin> set (encoder_labels (encoder self))" by (simp add: encoder_labels_set)
  then have "index_of (encoder_labels (encoder self)) label = None" by (simp add: index_of_None)
  then show ?thesis
    by (simp add: get_label_column_index_def encoder_get_label_column_index_def)
qed

section \<open>The index of the maximum\<close>

lemma argmax_scan_spec:
  "best < length pre \<Longrightarrow> v = pre ! best \<Longrightarrow> \<forall>k < length pre. pre ! k \<le> v \<Longrightarrow> \<forall>k < best. pre ! k < v \<Longrightarrow>
   (let j = argmax_scan best v (length pre) xs; row = pre @ xs
    in j < length row \<and> (\<forall>k < length row. row ! k \<le> row ! j) \<and> (\<forall>k < j. row ! k < row ! j))"
proof (induction xs arbitrary: pre best v)
  case Nil
  then show ?case by simp
next
  case (Cons x xs)
  show ?case
  proof (cases "v < x")
    case True
    have "let j = argmax_scan (length pre) x (length (pre @ [x])) xs; row = (pre @ [x]) @ xs
          in j < length row \<and> (\<forall>k < length row. row ! k \<le> row ! j) \<and> (\<forall>k < j. row ! k < row ! j)"
    proof (rule Cons.IH)
      show "length pre < length (pre @ [x])" by simp
      show "x = (pre @ [x]) ! length pre" by simp
      show "\<forall>k<length (pre @ [x]). (pre @ [x]) ! k \<le> x"
        using Cons.prems(3) True by (auto simp: nth_append less_Suc_eq intro: less_imp_le order_trans)
      show "\<forall>k<length pre. (pre @ [x]) ! k < x"
        using Cons.prems(3) True by (auto simp: nth_append intro: le_less_trans)
    qed
    with True show ?thesis by simp
  next
    case False
    have "let j = argmax_scan best v (length (pre @ [x])) xs; row = (pre @ [x]) @ xs
          in j < length row \<and> (\<forall>k < length row. row ! k \<le> row ! j) \<and> (\<forall>k < j. row ! k < row ! j)"
    proof (rule Cons.IH)
      show "best < length (pre @ [x])" using Cons.prems(1) by simp
      show "v = (pre @ [x]) ! best" using Cons.prems(1,2) by (simp add: nth_append)
      show "\<forall>k<length (pre @ [x]). (pre @ [x]) ! k \<le> v"
        using Cons.prems(3) False by (auto simp: nth_append less_Suc_eq)
      show "\<forall>k<best. (pre @ [x]) ! k < v"
        using Cons.prems(1,4) by (auto simp: nth_append)
    qed
    with False show ?thesis by simp
  qed
qed

lemma argmax_spec:
  assumes "row \<noteq> []"
  shows "\<exists>j. argmax row = Inr j \<and> j < length row \<and> (\<forall>k < length row. row ! k \<le> row ! j) \<and> (\<forall>k < j. row ! k < row ! j)"
proof -
  from assms obtain x xs where row: "row = x # xs" by (cases row) auto
  have "let j = argmax_scan 0 x (length [x]) xs; row = [x] @ xs
        in j < length row \<and> (\<forall>k < length row. row ! k \<le> row ! j) \<and> (\<forall>k < j. row ! k < row ! j)"
    by (rule argmax_scan_spec) simp_all
  then show ?thesis by (simp add: row Let_def)
qed

lemma argmax_Inl: "argmax row = Inl e \<Longrightarrow> row = [] \<and> e = ValueError"
  by (cases row) auto

lemma argmax_axis1_nonempty:
  assumes "\<And>row. row \<in> set y \<Longrightarrow> row \<noteq> []"
  shows "argmax_axis1 y = Inr (map (\<lambda>row. projr (argmax row)) y)"
  unfolding argmax_axis1_def
proof (rule map_raise_all_Inr)
  fix row assume "row \<in> set y"
  then have "row \<noteq> []" by (rule assms)
  from argmax_spec[OF this] show "argmax row = Inr (projr (argmax row))" by auto
qed

section \<open>Prediction on well-shaped scores\<close>

lemma well_shapedD:
  "well_shaped n_rows n_cols out \<Longrightarrow>
   \<exists>y. out = Inr y \<and> length y = n_rows \<and> (\<forall>row \<in> set y. length row = n_cols)"
  by (cases out) (simp_all add: well_shaped_def list_all_iff)

lemma pred_batch_shaped:
  assumes d: "distinct labels" and ne: "labels \<noteq> []"
    and enc: "encoder a = DictionaryEncoder_init (enumerate_dict labels)"
    and y: "predict_function a (map data batch) = Inr y"
    and cols: "\<And>row. row \<in> set y \<Longrightarrow> length row = length labels"
  shows "pred_batch a batch =
           Inr (map identifier batch, map (\<lambda>row. {labels ! projr (argmax row)}) y)"
proof -
  have rows: "\<And>row. row \<in> set y \<Longrightarrow> row \<noteq> []"
    using cols ne by fastforce
  have am: "argmax_axis1 y = Inr (map (\<lambda>row. projr (argmax row)) y)"
    using rows by (rule argmax_axis1_nonempty)
  have "decode_matrix (encoder a) (map (\<lambda>row. projr (argmax row)) y)
          = map_raise (\<lambda>row. decode_vector (encoder a) (projr (argmax row))) y"
    by (simp add: decode_matrix_def map_raise_map)
  also have "\<dots> = Inr (map (\<lambda>row. {labels ! projr (argmax row)}) y)"
  proof (rule map_raise_all_Inr)
    fix row assume r: "row \<in> set y"
    from argmax_spec[OF rows[OF r]] have "projr (argmax row) < length row" by auto
    with cols[OF r] have "projr (argmax row) < length labels" by simp
    then show "decode_vector (encoder a) (projr (argmax row)) = Inr {labels ! projr (argmax row)}"
      by (simp add: decode_vector_def enc DictionaryEncoder_init_def inv_lookup d)
  qed
  finally show ?thesis
    by (simp add: pred_batch_def pred_proba_batch_raw_def y am)
qed

lemma zip_chain_Cons: "zip_chain ((ks, ys) # rest) = zip ks ys @ zip_chain rest"
  by (simp add: zip_chain_def)

lemma zip_chain_batches:
  assumes "\<And>batch. batch \<in> set batches \<Longrightarrow> length (D batch) = length batch"
  shows "zip_chain (map (\<lambda>batch. (map K batch, D batch)) batches)
           = zip (map K (concat batches)) (concat (map D batches))"
  using assms
proof (induction batches)
  case Nil
  then show ?case by (simp add: zip_chain_def)
next
  case (Cons batch batches)
  then show ?case by (simp add: zip_chain_Cons)
qed

lemma predict_instances_shaped:
  assumes d: "distinct labels" and ne: "labels \<noteq> []"
    and enc: "encoder a = DictionaryEncoder_init (enumerate_dict labels)"
    and sh: "list_all (\<lambda>batch. well_shaped (length batch) (length labels) (predict_function a (map data batch)))
               (divide_iterable_in_lists xs b)"
    and b: "0 < b"
  shows "predict_instances a xs b =
           Inr (zip (map identifier xs)
                  (concat (map (\<lambda>batch. map (\<lambda>row. {labels ! projr (argmax row)}) (projr (predict_function a (map data batch))))
                     (divide_iterable_in_lists xs b))))"
    (is "_ = Inr (zip _ (concat (map ?D ?batches)))")
proof -
  have each: "pred_batch a batch = Inr (map identifier batch, ?D batch) \<and> length (?D batch) = length batch"
    if "batch \<in> set ?batches" for batch
  proof -
    from sh that have "well_shaped (length batch) (length labels) (predict_function a (map data batch))"
      by (simp add: list_all_iff)
    from well_shapedD[OF this] obtain y where y: "predict_function a (map data batch) = Inr y"
      and len: "length y = length batch" and cols: "\<forall>row \<in> set y. length row = length labels"
      by blast
    from pred_batch_shaped[OF d ne enc y] cols len show ?thesis
      by (simp add: y)
  qed
  then have "map_raise (pred_batch a) ?batches = Inr (map (\<lambda>batch. (map identifier batch, ?D batch)) ?batches)"
    by (intro map_raise_all_Inr) simp
  moreover have "zip_chain (map (\<lambda>batch. (map identifier batch, ?D batch)) ?batches)
                   = zip (map identifier (concat ?batches)) (concat (map ?D ?batches))"
    using each by (intro zip_chain_batches) simp
  ultimately show ?thesis
    using b by (simp add: predict_instances_def divide_concat)
qed

lemma predict_proba_instances_shaped:
  assumes sh: "list_all (\<lambda>batch. well_shaped (length batch) n (predict_function a (map data batch)))
               (divide_iterable_in_lists xs b)"
    and b: "0 < b"
  shows "predict_proba_instances a xs b =
           Inr (zip (map identifier xs)
                  (concat (map (\<lambda>batch. decode_proba_matrix (encoder a) (projr (predict_function a (map data batch))))
                     (divide_iterable_in_lists xs b))))"
    (is "_ = Inr (zip _ (concat (map ?D ?batches)))")
proof -
  have each: "pred_proba_batch a batch = Inr (map identifier batch, ?D batch) \<and> length (?D batch) = length batch"
    if "batch \<in> set ?batches" for batch
  proof -
    from sh that have "well_shaped (length batch) n (predict_function a (map data batch))"
      by (simp add: list_all_iff)
    from well_shapedD[OF this] obtain y where y: "predict_function a (map data batch) = Inr y"
      and len: "length y = length batch"
      by blast
    then show ?thesis
      by (simp add: pred_proba_batch_def pred_proba_batch_raw_def decode_proba_matrix_def)
  qed
  then have "map_raise (pred_proba_batch a) ?batches = Inr (map (\<lambda>batch. (map identifier batch, ?D batch)) ?batches)"
    by (intro map_raise_all_Inr) simp
  moreover have "zip_chain (map (\<lambda>batch. (map identifier batch, ?D batch)) ?batches)
                   = zip (map identifier (concat ?batches)) (concat (map ?D ?batches))"
    using each by (intro zip_chain_batches) simp
  ultimately show ?thesis
    using b by (simp add: predict_proba_instances_def divide_concat)
qed

lemma shaped_lengths:
  assumes sh: "list_all (\<lambda>batch. well_shaped (length batch) n (f (map data batch))) batches"
    and D: "\<And>batch. length (D batch) = length (projr (f (map data batch)))"
  shows "length (concat (map D batches)) = length (concat batches)"
proof (rule length_concat_batches)
  fix batch assume "batch \<in> set batches"
  with sh have "well_shaped (length batch) n (f (map data batch))" by (simp add: list_all_iff)
  from well_shapedD[OF this] D[of batch] show "length (D batch) = length batch" by auto
qed

section \<open>Prediction when each instance is scored on its own\<close>

lemma batched_scores_each_instance:
  assumes "\<And>d. f d = Inr (g d)" and "\<And>d. length (g d) = n"
  shows "scores_each_instance (batched_predict_function f) g n"
proof -
  have "batched_predict_function f ds = Inr (map g ds)" if "ds \<noteq> []" for ds
  proof -
    have "map_raise f ds = Inr (map g ds)" by (rule map_raise_all_Inr) (rule assms(1))
    moreover have "vstack (map g ds) = Inr (map g ds)"
      using that by (simp add: vstack_def list_ex_iff assms(2) hd_map)
    ultimately show ?thesis by (simp add: batched_predict_function_def)
  qed
  then show ?thesis by (simp add: scores_each_instance_def assms(2))
qed

lemma pred_batch_each_instance:
  assumes s: "scores_each_instance (predict_function a) g n" and ne: "batch \<noteq> []"
  shows "pred_batch a batch =
           (case map_raise (\<lambda>x. predict_row (encoder a) (g (data x))) batch of
              Inl e \<Rightarrow> Inl e | Inr ys \<Rightarrow> Inr (map identifier batch, ys))"
proof -
  from s ne have y: "predict_function a (map data batch) = Inr (map g (map data batch))"
    by (simp add: scores_each_instance_def)
  from s have len: "\<And>d. length (g d) = n" by (simp add: scores_each_instance_def)
  show ?thesis
  proof (cases "n = 0")
    case True
    with len have e: "\<And>d. g d = []" by simp
    from ne obtain x rest where batch: "batch = x # rest" by (cases batch) auto
    have "argmax_axis1 (map g (map data batch)) = Inl ValueError"
      by (simp add: argmax_axis1_def batch e)
    moreover have "map_raise (\<lambda>x. predict_row (encoder a) (g (data x))) batch = Inl ValueError"
      by (simp add: batch e predict_row_def)
    ultimately show ?thesis
      by (simp add: pred_batch_def pred_proba_batch_raw_def y)
  next
    case False
    with len have rows: "\<And>d. g d \<noteq> []" by fastforce
    define y where "y = map g (map data batch)"
    have am: "argmax_axis1 y = Inr (map (\<lambda>row. projr (argmax row)) y)"
      by (rule argmax_axis1_nonempty) (auto simp: rows y_def)
    have "decode_matrix (encoder a) (map (\<lambda>row. projr (argmax row)) y)
            = map_raise (\<lambda>x. decode_vector (encoder a) (projr (argmax (g (data x))))) batch"
      by (simp add: decode_matrix_def map_raise_map y_def)
    also have "\<dots> = map_raise (\<lambda>x. predict_row (encoder a) (g (data x))) batch"
    proof (rule map_raise_cong_set)
      fix x
      from argmax_spec[OF rows[of "data x"]] obtain j where "argmax (g (data x)) = Inr j" by blast
      then show "decode_vector (encoder a) (projr (argmax (g (data x)))) = predict_row (encoder a) (g (data x))"
        by (simp add: predict_row_def)
    qed
    finally have dec: "decode_matrix (encoder a) (map (\<lambda>row. projr (argmax row)) y)
            = map_raise (\<lambda>x. predict_row (encoder a) (g (data x))) batch" .
    from y have "predict_function a (map data batch) = Inr y" by (simp only: y_def)
    then show ?thesis
      by (simp add: pred_batch_def pred_proba_batch_raw_def am dec)
  qed
qed

lemma zip_chain_each_instance:
  assumes "\<And>batch. batch \<in> set batches \<Longrightarrow>
             P batch = (case map_raise h batch of Inl e \<Rightarrow> Inl e | Inr ys \<Rightarrow> Inr (map K batch, ys))"
  shows "(case map_raise P batches of Inl e \<Rightarrow> Inl e | Inr processed \<Rightarrow> Inr (zip_chain processed))
       = (case map_raise h (concat batches) of Inl e \<Rightarrow> Inl e | Inr ys \<Rightarrow> Inr (zip (map K (concat batches)) ys))"
  using assms
proof (induction batches)
  case Nil
  then show ?case by (simp add: zip_chain_def)
next
  case (Cons batch batches)
  have IH: "(case map_raise P batches of Inl e \<Rightarrow> Inl e | Inr processed \<Rightarrow> Inr (zip_chain processed))
       = (case map_raise h (concat batches) of Inl e \<Rightarrow> Inl e | Inr ys \<Rightarrow> Inr (zip (map K (concat batches)) ys))"
    by (rule Cons.IH) (simp add: Cons.prems)
  have P: "P batch = (case map_raise h batch of Inl e \<Rightarrow> Inl e | Inr ys \<Rightarrow> Inr (map K batch, ys))"
    by (rule Cons.prems) simp
  show ?case
  proof (cases "map_raise h batch")
    case (Inl e)
    then show ?thesis by (simp add: P map_raise_append)
  next
    case (Inr ys)
    then have len: "length ys = length batch" by (rule map_raise_length)
    from IH show ?thesis
      by (simp add: P Inr map_raise_append zip_chain_Cons len split: sum.splits)
  qed
qed

lemma predict_instances_each_instance:
  assumes s: "scores_each_instance (predict_function a) g n" and b: "0 < b"
  shows "predict_instances a xs b =
           (case map_raise (\<lambda>x. predict_row (encoder a) (g (data x))) xs of
              Inl e \<Rightarrow> Inl e | Inr ys \<Rightarrow> Inr (zip (map identifier xs) ys))"
proof -
  have "(case map_raise (pred_batch a) (divide_iterable_in_lists xs b) of
           Inl e \<Rightarrow> Inl e | Inr processed \<Rightarrow> Inr (zip_chain processed))
       = (case map_raise (\<lambda>x. predict_row (encoder a) (g (data x))) (concat (divide_iterable_in_lists xs b)) of
            Inl e \<Rightarrow> Inl e | Inr ys \<Rightarrow> Inr (zip (map identifier (concat (divide_iterable_in_lists xs b))) ys))"
  proof (rule zip_chain_each_instance)
    fix batch assume "batch \<in> set (divide_iterable_in_lists xs b)"
    then have "batch \<noteq> []" by (simp add: divide_nonempty)
    with s show "pred_batch a batch =
           (case map_raise (\<lambda>x. predict_row (encoder a) (g (data x))) batch of
              Inl e \<Rightarrow> Inl e | Inr ys \<Rightarrow> Inr (map identifier batch, ys))"
      by (rule pred_batch_each_instance)
  qed
  then show ?thesis
    unfolding divide_concat[OF b] by (simp add: predict_instances_def)
qed

lemma predict_proba_instances_each_instance:
  assumes s: "scores_each_instance (predict_function a) g n" and b: "0 < b"
  shows "predict_proba_instances a xs b =
           Inr (zip (map identifier xs) (map (\<lambda>x. decode_proba_vector (encoder a) (g (data x))) xs))"
proof -
  let ?h = "\<lambda>x. Inr (decode_proba_vector (encoder a) (g (data x))) :: error + _"
  have "(case map_raise (pred_proba_batch a) (divide_iterable_in_lists xs b) of
           Inl e \<Rightarrow> Inl e | Inr processed \<Rightarrow> Inr (zip_chain processed))
       = (case map_raise ?h (concat (divide_iterable_in_lists xs b)) of
            Inl e \<Rightarrow> Inl e | Inr ys \<Rightarrow> Inr (zip (map identifier (concat (divide_iterable_in_lists xs b))) ys))"
  proof (rule zip_chain_each_instance)
    fix batch :: "'b Instance list" assume "batch \<in> set (divide_iterable_in_lists xs b)"
    then have "batch \<noteq> []" by (simp add: divide_nonempty)
    with s have "predict_function a (map data batch) = Inr (map g (map data batch))"
      by (simp add: scores_each_instance_def)
    then show "pred_proba_batch a batch =
           (case map_raise ?h batch of Inl e \<Rightarrow> Inl e | Inr ys \<Rightarrow> Inr (map identifier batch, ys))"
      by (simp add: pred_proba_batch_def pred_proba_batch_raw_def decode_proba_matrix_def
          map_raise_total comp_def)
  qed
  then show ?thesis
    unfolding divide_concat[OF b] by (simp add: predict_proba_instances_def map_raise_total)
qed

section \<open>How a batch can fail\<close>

lemma pred_proba_batch_raw_Inl_iff:
  "pred_proba_batch_raw self batch = Inl e \<longleftrightarrow> predict_function self (map data batch) = Inl e"
  by (simp add: pred_proba_batch_raw_def split: sum.splits)

lemma pred_proba_batch_Inl_iff:
  "pred_proba_batch self batch = Inl e \<longleftrightarrow> predict_function self (map data batch) = Inl e"
  by (simp add: pred_proba_batch_def pred_proba_batch_raw_def split: sum.splits)

lemma pred_batch_Inl:
  assumes "pred_batch self batch = Inl e"
  shows "predict_function self (map data batch) = Inl e
       \<or> (\<exists>y. predict_function self (map data batch) = Inr y
            \<and> (e = ValueError \<and> [] \<in> set y
               \<or> (\<exists>row \<in> set y. \<exists>j. argmax row = Inr j \<and> decode_vector (encoder self) j = Inl e)))"
proof (cases "predict_function self (map data batch)")
  case (Inl e')
  with assms show ?thesis by (simp add: pred_batch_def pred_proba_batch_raw_def)
next
  case y: (Inr y)
  show ?thesis
  proof (cases "argmax_axis1 y")
    case (Inl e')
    with assms y have e: "e' = e" by (simp add: pred_batch_def pred_proba_batch_raw_def)
    from Inl obtain row where "row \<in> set y" "argmax row = Inl e'"
      unfolding argmax_axis1_def by (blast dest: map_raise_Inl)
    with argmax_Inl[of row e'] e y show ?thesis by auto
  next
    case idx: (Inr idx)
    with assms y have "decode_matrix (encoder self) idx = Inl e"
      by (simp add: pred_batch_def pred_proba_batch_raw_def split: sum.splits)
    then obtain j where j: "j \<in> set idx" "decode_vector (encoder self) j = Inl e"
      unfolding decode_matrix_def by (blast dest: map_raise_Inl)
    from idx j(1) obtain row where "row \<in> set y" "argmax row = Inr j"
      unfolding argmax_axis1_def by (blast dest: map_raise_Inr_mem)
    with j(2) y show ?thesis by auto
  qed
qed

lemma pred_batch_fails:
  assumes "(\<exists>e. predict_function self (map data batch) = Inl e)
       \<or> (\<exists>y. predict_function self (map data batch) = Inr y
            \<and> ([] \<in> set y
               \<or> (\<exists>row \<in> set y. \<exists>j e. argmax row = Inr j \<and> decode_vector (encoder self) j = Inl e)))"
  shows "\<exists>e. pred_batch self batch = Inl e"
proof (cases "predict_function self (map data batch)")
  case (Inl e)
  then show ?thesis by (simp add: pred_batch_def pred_proba_batch_raw_def)
next
  case y: (Inr y)
  show ?thesis
  proof (cases "argmax_axis1 y")
    case (Inl e)
    with y show ?thesis by (simp add: pred_batch_def pred_proba_batch_raw_def)
  next
    case idx: (Inr idx)
    then have no_fail: "\<not> (\<exists>e. map_raise argmax y = Inl e)" by (simp add: argmax_axis1_def)
    have "[] \<notin> set y"
    proof
      assume "[] \<in> set y"
      then have "\<exists>row \<in> set y. \<exists>e. argmax row = Inl e" by (intro bexI[of _ "[]"]) simp_all
      with no_fail map_raise_fails_iff[of argmax y] show False by blast
    qed
    with assms y obtain row j e where r: "row \<in> set y" "argmax row = Inr j"
      "decode_vector (encoder self) j = Inl e"
      by auto
    from idx r(1) obtain j' where "j' \<in> set idx" "argmax row = Inr j'"
      unfolding argmax_axis1_def by (blast dest: map_raise_Inr_image)
    with r(2,3) have "\<exists>j \<in> set idx. \<exists>e. decode_vector (encoder self) j = Inl e" by auto
    with map_raise_fails_iff[of "decode_vector (encoder self)" idx]
    have "\<exists>e. decode_matrix (encoder self) idx = Inl e"
      unfolding decode_matrix_def by blast
    with y idx show ?thesis
      by (auto simp: pred_batch_def pred_proba_batch_raw_def)
  qed
qed

lemma vstack_Inl:
  assumes "vstack arrays = Inl e"
  shows "e = ValueError \<and> (arrays = [] \<or> (\<exists>a \<in> set arrays. length a \<noteq> length (hd arrays)))"
proof (cases "arrays = []")
  case True
  with assms show ?thesis unfolding vstack_def by simp
next
  case False
  show ?thesis
  proof (cases "list_ex (\<lambda>a. length a \<noteq> length (hd arrays)) arrays")
    case True
    then have "\<exists>a \<in> set arrays. length a \<noteq> length (hd arrays)" unfolding list_ex_iff .
    moreover from True False assms have "e = ValueError" unfolding vstack_def by simp
    ultimately show ?thesis by blast
  next
    case nex: False
    with False assms show ?thesis unfolding vstack_def by (simp only: if_False sum.distinct)
  qed
qed

lemma vstack_fails:
  assumes "arrays = [] \<or> (\<exists>a \<in> set arrays. length a \<noteq> length (hd arrays))"
  shows "vstack arrays = Inl ValueError"
proof (cases "arrays = []")
  case True
  then show ?thesis unfolding vstack_def by simp
next
  case False
  with assms have "\<exists>a \<in> set arrays. length a \<noteq> length (hd arrays)" by blast
  then have "list_ex (\<lambda>a. length a \<noteq> length (hd arrays)) arrays" unfolding list_ex_iff .
  with False show ?thesis unfolding vstack_def by (simp only: if_False if_True)
qed

lemma batched_predict_function_Inl:
  assumes "batched_predict_function f ds = Inl e"
  shows "(\<exists>d \<in> set ds. f d = Inl e)
       \<or> (e = ValueError \<and> (ds = [] \<or> (\<exists>d1 \<in> set ds. \<exists>d2 \<in> set ds. \<exists>v1 v2.
              f d1 = Inr v1 \<and> f d2 = Inr v2 \<and> length v1 \<noteq> length v2)))"
proof (cases "map_raise f ds")
  case (Inl e')
  with assms have "e' = e" by (simp add: batched_predict_function_def)
  with Inl have "map_raise f ds = Inl e" by simp
  then have "\<exists>d \<in> set ds. f d = Inl e" by (rule map_raise_Inl)
  then show ?thesis by (rule disjI1)
next
  case (Inr arrays)
  with assms have "vstack arrays = Inl e" by (simp add: batched_predict_function_def)
  from vstack_Inl[OF this] have e: "e = ValueError"
    and c: "arrays = [] \<or> (\<exists>a \<in> set arrays. length a \<noteq> length (hd arrays))"
    by blast+
  show ?thesis
  proof (cases "arrays = []")
    case True
    with Inr have "ds = []" by (simp only: map_raise_Nil_iff)
    with e show ?thesis by blast
  next
    case False
    with c obtain a where a: "a \<in> set arrays" "length a \<noteq> length (hd arrays)" by blast
    from False have "hd arrays \<in> set arrays" by (rule hd_in_set)
    with Inr obtain d2 where d2: "d2 \<in> set ds" "f d2 = Inr (hd arrays)"
      by (blast dest: map_raise_Inr_mem)
    from Inr a(1) obtain d1 where d1: "d1 \<in> set ds" "f d1 = Inr a"
      by (blast dest: map_raise_Inr_mem)
    from d1 d2 a(2) have "\<exists>d1 \<in> set ds. \<exists>d2 \<in> set ds. \<exists>v1 v2.
              f d1 = Inr v1 \<and> f d2 = Inr v2 \<and> length v1 \<noteq> length v2"
      by (intro bexI[of _ d1] bexI[of _ d2] exI[of _ a] exI[of _ "hd arrays"]) simp_all
    with e show ?thesis by blast
  qed
qed

lemma batched_predict_function_fails:
  assumes "(\<exists>d \<in> set ds. \<exists>e. f d = Inl e) \<or> ds = []
       \<or> (\<exists>d1 \<in> set ds. \<exists>d2 \<in> set ds. \<exists>v1 v2. f d1 = Inr v1 \<and> f d2 = Inr v2 \<and> length v1 \<noteq> length v2)"
  shows "\<exists>e. batched_predict_function f ds = Inl e"
proof (cases "map_raise f ds")
  case (Inl e)
  then show ?thesis by (simp add: batched_predict_function_def)
next
  case (Inr arrays)
  then have "\<not> (\<exists>e. map_raise f ds = Inl e)" by simp
  with map_raise_fails_iff[of f ds] have none: "\<not> (\<exists>d \<in> set ds. \<exists>e. f d = Inl e)" by blast
  have "arrays = [] \<or> (\<exists>a \<in> set arrays. length a \<noteq> length (hd arrays))"
  proof (cases "ds = []")
    case True
    with Inr show ?thesis by simp
  next
    case False
    with assms none obtain d1 d2 v1 v2 where d: "d1 \<in> set ds" "d2 \<in> set ds"
      "f d1 = Inr v1" "f d2 = Inr v2" "length v1 \<noteq> length v2"
      by blast
    from Inr d(1) obtain w1 where "w1 \<in> set arrays" "f d1 = Inr w1" by (blast dest: map_raise_Inr_image)
    with d(3) have v1: "v1 \<in> set arrays" by simp
    from Inr d(2) obtain w2 where "w2 \<in> set arrays" "f d2 = Inr w2" by (blast dest: map_raise_Inr_image)
    with d(4) have v2: "v2 \<in> set arrays" by simp
    from d(5) have "length v1 \<noteq> length (hd arrays) \<or> length v2 \<noteq> length (hd arrays)" by linarith
    with v1 v2 show ?thesis by blast
  qed
  then have "vstack arrays = Inl ValueError" by (rule vstack_fails)
  with Inr show ?thesis by (simp add: batched_predict_function_def)
qed

section \<open>Facts about the concrete inputs\<close>

lemma TEST_MODEL_scores_each_instance:
  "scores_each_instance (predict_function TEST_MODEL) (\<lambda>d. projr (predict_fn d)) 2"
proof -
  have "scores_each_instance (batched_predict_function predict_fn) (\<lambda>d. projr (predict_fn d)) 2"
    by (rule batched_scores_each_instance) (simp_all add: predict_fn_def)
  then show ?thesis by (simp add: TEST_MODEL_def from_callable_def init_def)
qed

lemma three_instances_well_shaped:
  "list_all (\<lambda>batch. well_shaped (length batch) (length [''punctuation'', ''no_punctuation''])
               (predict_function TEST_MODEL (map data batch)))
     (divide_iterable_in_lists three_instances 2)"
  by (simp add: three_instances_def divide_iterable_in_lists.simps TEST_MODEL_def from_callable_def
      init_def batched_predict_function_def predict_fn_def vstack_def well_shaped_def)

lemma one_batch: "divide_iterable_in_lists one_instance 200 = [one_instance]"
  by (simp add: one_instance_def divide_iterable_in_lists.simps)

lemma TEST_MODEL_example:
  "predict_instances TEST_MODEL
     [\<lparr>identifier = ''!'', data = ''!''\<rparr>, \<lparr>identifier = ''z'', data = ''z''\<rparr>] 200
   = Inr [(''!'', {''punctuation''}), (''z'', {''no_punctuation''})]"
  by (simp add: predict_instances_def TEST_MODEL_def from_callable_def init_def
      divide_iterable_in_lists.simps pred_batch_def pred_proba_batch_raw_def
      batched_predict_function_def predict_fn_def vstack_def argmax_axis1_def decode_matrix_def
      decode_vector_def DictionaryEncoder_init_def invert_mapping_def enumerate_dict_def
      zip_chain_def enumerate_eq_zip)

section \<open>Random combinations\<close>

lemma last_first_source_valid: "valid_random_source last_first_source"
  by (auto simp: valid_random_source_def last_first_source_def dest: in_set_takeD)

lemma subseq_map_nth:
  assumes "sorted idx" and "distinct idx" and "set idx \<subseteq> {..<length pool}"
  shows "subseq (map (\<lambda>i. pool ! i) idx) pool"
proof -
  let ?f = "filter (\<lambda>i. i \<in> set idx) [0..<length pool]"
  have "sorted ?f" by (simp add: sorted_wrt_filter)
  moreover have "distinct ?f" by simp
  moreover have "set ?f = set idx" using assms(3) by auto
  ultimately have "idx = ?f"
    using assms(1,2) by (intro sorted_distinct_set_unique) simp_all
  then have "subseq idx [0..<length pool]"
    by (metis subseq_filter_left)
  then have "subseq (map (\<lambda>i. pool ! i) idx) (map (\<lambda>i. pool ! i) [0..<length pool])"
    by (rule subseq_map)
  then show ?thesis by (simp add: map_nth)
qed

lemma random_combination_ok:
  assumes v: "valid_random_source R" and r: "0 \<le> r" "r \<le> int (length pool)"
  shows "\<exists>c g'. random_combination R g pool r = Inr (c, g') \<and> int (length c) = r \<and> subseq c pool"
proof -
  obtain idx g' where s: "sample_range R g (length pool) (nat r) = (idx, g')"
    by (cases "sample_range R g (length pool) (nat r)")
  from r have "nat r \<le> length pool" by simp
  with v have "length (fst (sample_range R g (length pool) (nat r))) = nat r"
    and "distinct (fst (sample_range R g (length pool) (nat r)))"
    and "set (fst (sample_range R g (length pool) (nat r))) \<subseteq> {..<length pool}"
    unfolding valid_random_source_def by blast+
  with s have len: "length idx = nat r" and dist: "distinct idx" and sub: "set idx \<subseteq> {..<length pool}"
    by simp_all
  have "map_raise (\<lambda>i. if i < length pool then Inr (pool ! i) else Inl IndexError) (sort idx)
          = Inr (map (\<lambda>i. pool ! i) (sort idx))"
    using sub by (intro map_raise_all_Inr) auto
  with r s have "random_combination R g pool r = Inr (map (\<lambda>i. pool ! i) (sort idx), g')"
    by (simp add: random_combination_def random_sample_range_def)
  moreover have "int (length (map (\<lambda>i. pool ! i) (sort idx))) = r"
    using len r by simp
  moreover have "subseq (map (\<lambda>i. pool ! i) (sort idx)) pool"
    using dist sub by (intro subseq_map_nth) simp_all
  ultimately show ?thesis by blast
qed

lemma random_combination_each_ok:
  assumes v: "valid_random_source R"
  shows "(\<And>r. r \<in> set sizes \<Longrightarrow> 0 \<le> r \<and> r \<le> int (length pool)) \<Longrightarrow>
         \<exists>res g'. random_combination_each R g pool sizes = Inr (res, g')
           \<and> map (\<lambda>c. int (length c)) res = sizes \<and> list_all (\<lambda>c. subseq c pool) res"
proof (induction sizes arbitrary: g)
  case Nil
  then show ?case by simp
next
  case (Cons r sizes)
  from Cons.prems have "0 \<le> r" "r \<le> int (length pool)" by simp_all
  from random_combination_ok[OF v this] obtain c g1
    where c: "random_combination R g pool r = Inr (c, g1)" "int (length c) = r" "subseq c pool"
    by blast
  from Cons.IH[of g1] Cons.prems obtain res g2
    where res: "random_combination_each R g1 pool sizes = Inr (res, g2)"
      "map (\<lambda>c. int (length c)) res = sizes" "list_all (\<lambda>c. subseq c pool) res"
    by auto
  from c res show ?case by simp
qed

section \<open>Corrupting one name\<close>

lemma alphabet_size: "length (ascii_lowercase @ digits) = 36"
  by (simp add: ascii_lowercase_def digits_def)

lemma corrupt_one_prepends:
  assumes "valid_random_source R"
  shows "\<exists>c g'. corrupt_one R g (PyStr s) = (c # s, g') \<and> c \<in> set (ascii_lowercase @ digits)"
proof -
  obtain i g' where r: "randbelow R g (length (ascii_lowercase @ digits)) = (i, g')"
    by (cases "randbelow R g (length (ascii_lowercase @ digits))")
  have "0 < length (ascii_lowercase @ digits)" by (simp only: alphabet_size)
  with assms have "fst (randbelow R g (length (ascii_lowercase @ digits))) < length (ascii_lowercase @ digits)"
    unfolding valid_random_source_def by blast
  with r have "i < length (ascii_lowercase @ digits)" by simp
  then have "(ascii_lowercase @ digits) ! i \<in> set (ascii_lowercase @ digits)"
    by (rule nth_mem)
  with r show ?thesis
    by (simp add: corrupt_one_def random_choice_def)
qed

section \<open>corrupt on a single string\<close>

text \<open>
  C1. A string is itself iterable, so \<open>corrupt\<close> takes its first branch on a string
  too: \<open>corrupt("abc")\<close> is a list of three strings of two characters each, one for
  every character of the input, and not a string of four characters ending in
  \<open>abc\<close>. Whatever the random source draws, the result is never a string.
\<close>

theorem corrupt_str_returns_list:
  "\<exists>ss g'. corrupt R g (PyStr ''abc'') = (PyList ss, g') \<and> map length ss = [2, 2, 2]
     \<and> map tl ss = [''a'', ''b'', ''c'']"
  by (simp add: corrupt_def corrupt_one_def split: prod.splits)

section \<open>Batch size and output\<close>

text \<open>
  With the batched function \<open>batch_length_scores\<close>, two instances predicted one at a
  time get the first label (both columns hold 1, the lowest index wins), and predicted
  together get the second label (the second column holds 2). The decoded scores differ
  in the same way. The function is deterministic, and its output has one row for each
  instance and one column for each label.
\<close>

theorem batch_size_changes_output:
  "predict_instances batch_length_model two_instances 1 = Inr [(0, {''first''}), (1, {''first''})]
 \<and> predict_instances batch_length_model two_instances 2 = Inr [(0, {''second''}), (1, {''second''})]
 \<and> predict_proba_instances batch_length_model two_instances 1
      = Inr [(0, {(''first'', 1), (''second'', 1)}), (1, {(''first'', 1), (''second'', 1)})]
 \<and> predict_proba_instances batch_length_model two_instances 2
      = Inr [(0, {(''first'', 1), (''second'', 2)}), (1, {(''first'', 1), (''second'', 2)})]"
  by (simp add: predict_instances_def predict_proba_instances_def batch_length_model_def two_instances_def
      from_batched_callable_def init_def batch_length_scores_def divide_iterable_in_lists.simps
      pred_batch_def pred_proba_batch_def pred_proba_batch_raw_def argmax_axis1_def
      decode_matrix_def decode_vector_def decode_proba_matrix_def decode_proba_vector_def
      DictionaryEncoder_init_def invert_mapping_def enumerate_dict_def zip_chain_def enumerate_eq_zip)

text \<open>
  C2, as amended. When the prediction function scores each instance on its own, with a
  fixed number of columns, \<open>predict_instances\<close> and \<open>predict_proba_instances\<close> return
  the same result for any two batch sizes \<open>b1, b2 \<ge> 1\<close>, the same exception included.
\<close>

theorem batch_size_irrelevant_when_scored_each_instance:
  assumes "scores_each_instance (predict_function self) g n" and "1 \<le> b1" and "1 \<le> b2"
  shows "predict_instances self instances b1 = predict_instances self instances b2
       \<and> predict_proba_instances self instances b1 = predict_proba_instances self instances b2"
proof -
  from assms(2,3) have b: "0 < b1" "0 < b2" by simp_all
  show ?thesis
    by (simp add: predict_instances_each_instance[OF assms(1)] 
        predict_proba_instances_each_instance[OF assms(1)] b)
qed

theorem batch_size_irrelevant_when_scored_each_instance_witness:
  "scores_each_instance (predict_function TEST_MODEL) (\<lambda>d. projr (predict_fn d)) 2
 \<and> 1 \<le> (1 :: nat) \<and> 1 \<le> (3 :: nat)
 \<and> predict_instances TEST_MODEL three_instances 1 = predict_instances TEST_MODEL three_instances 3
 \<and> predict_proba_instances TEST_MODEL three_instances 1 = predict_proba_instances TEST_MODEL three_instances 3"
proof -
  have h2: "1 \<le> (1 :: nat)" and h3: "1 \<le> (3 :: nat)" by simp_all
  from batch_size_irrelevant_when_scored_each_instance[OF TEST_MODEL_scores_each_instance h2 h3,
      of three_instances]
  show ?thesis using TEST_MODEL_scores_each_instance by simp
qed

section \<open>One entry for every instance, in order\<close>

text \<open>
  C3. Let the labels be distinct and not empty, and let the prediction function return,
  for every batch of the instances, a matrix with one row for each instance of the batch
  and one column for each label. Then for every batch size of at least 1,
  \<open>predict_instances\<close> and \<open>predict_proba_instances\<close> return a list whose keys are
  the identifiers of the instances, in the order of the instances: one entry for every
  instance, none dropped, none moved.
\<close>

theorem predict_one_entry_per_instance:
  assumes "1 \<le> batch_size" and "distinct labels" and "labels \<noteq> []"
    and "list_all (\<lambda>batch. well_shaped (length batch) (length labels) (predict_function self (map data batch)))
           (divide_iterable_in_lists instances batch_size)"
  shows "(\<exists>res. predict_instances (set_target_labels self labels) instances batch_size = Inr res
            \<and> map fst res = map identifier instances)
       \<and> (\<exists>res. predict_proba_instances (set_target_labels self labels) instances batch_size = Inr res
            \<and> map fst res = map identifier instances)"
proof -
  let ?a = "set_target_labels self labels"
  let ?batches = "divide_iterable_in_lists instances batch_size"
  from assms(1) have b: "0 < batch_size" by simp
  have sh: "list_all (\<lambda>batch. well_shaped (length batch) (length labels) (predict_function ?a (map data batch))) ?batches"
    using assms(4) by (simp add: set_target_labels_simps)
  have l1: "length (concat (map (\<lambda>batch. map (\<lambda>row. {labels ! projr (argmax row)}) (projr (predict_function ?a (map data batch)))) ?batches))
            = length (concat ?batches)"
    using sh by (rule shaped_lengths) simp
  have l2: "length (concat (map (\<lambda>batch. decode_proba_matrix (encoder ?a) (projr (predict_function ?a (map data batch)))) ?batches))
            = length (concat ?batches)"
    using sh by (rule shaped_lengths) (simp add: decode_proba_matrix_def)
  have c: "concat ?batches = instances" using b by (rule divide_concat)
  have "predict_instances ?a instances batch_size =
          Inr (zip (map identifier instances)
                 (concat (map (\<lambda>batch. map (\<lambda>row. {labels ! projr (argmax row)}) (projr (predict_function ?a (map data batch)))) ?batches)))"
    using assms(2,3) set_target_labels_simps(2) sh b by (rule predict_instances_shaped)
  moreover have "predict_proba_instances ?a instances batch_size =
          Inr (zip (map identifier instances)
                 (concat (map (\<lambda>batch. decode_proba_matrix (encoder ?a) (projr (predict_function ?a (map data batch)))) ?batches)))"
    using sh b by (rule predict_proba_instances_shaped)
  ultimately show ?thesis
    using l1 l2 c by simp
qed

theorem predict_one_entry_per_instance_witness:
  "1 \<le> (2 :: nat) \<and> distinct [''punctuation'', ''no_punctuation'']
 \<and> [''punctuation'', ''no_punctuation''] \<noteq> []
 \<and> list_all (\<lambda>batch. well_shaped (length batch) (length [''punctuation'', ''no_punctuation''])
               (predict_function TEST_MODEL (map data batch)))
     (divide_iterable_in_lists three_instances 2)
 \<and> (\<exists>res. predict_instances (set_target_labels TEST_MODEL [''punctuation'', ''no_punctuation''])
              three_instances 2 = Inr res
          \<and> map fst res = map identifier three_instances)
 \<and> (\<exists>res. predict_proba_instances (set_target_labels TEST_MODEL [''punctuation'', ''no_punctuation''])
              three_instances 2 = Inr res
          \<and> map fst res = map identifier three_instances)"
proof -
  have h1: "1 \<le> (2 :: nat)" by simp
  have h2: "distinct [''punctuation'', ''no_punctuation'']" by simp
  have h3: "[''punctuation'', ''no_punctuation''] \<noteq> []" by simp
  note h4 = three_instances_well_shaped
  from predict_one_entry_per_instance[OF h1 h2 h3 h4] h1 h2 h3 h4 show ?thesis
    by (intro conjI) blast+
qed

section \<open>The predicted label\<close>

text \<open>
  C4. Under the same conditions, the entry \<open>predict_instances\<close> returns at position
  \<open>p\<close> holds the identifier of the instance at position \<open>p\<close> and a single label.
  The label's column index \<open>j\<close> in the encoder is the index of the maximum of the
  instance's row, the row \<open>p mod batch_size\<close> of the matrix the prediction function
  returns for the batch that holds the instance: no score of the row is larger than the
  score at \<open>j\<close>, and every score before \<open>j\<close> is strictly smaller, so among equal
  maxima the lowest index is chosen.
\<close>

theorem predict_label_is_first_maximum:
  assumes "1 \<le> batch_size" and "distinct labels" and "labels \<noteq> []"
    and "list_all (\<lambda>batch. well_shaped (length batch) (length labels) (predict_function self (map data batch)))
           (divide_iterable_in_lists instances batch_size)"
    and "p < length instances"
  shows "\<exists>res y label j.
           predict_instances (set_target_labels self labels) instances batch_size = Inr res
         \<and> predict_function self (map data (take batch_size (drop (p div batch_size * batch_size) instances))) = Inr y
         \<and> res ! p = (identifier (instances ! p), {label})
         \<and> get_label_column_index (set_target_labels self labels) label = Inr j
         \<and> j < length (y ! (p mod batch_size))
         \<and> (\<forall>k < length (y ! (p mod batch_size)). y ! (p mod batch_size) ! k \<le> y ! (p mod batch_size) ! j)
         \<and> (\<forall>k < j. y ! (p mod batch_size) ! k < y ! (p mod batch_size) ! j)"
proof -
  let ?a = "set_target_labels self labels"
  let ?batches = "divide_iterable_in_lists instances batch_size"
  let ?batch = "take batch_size (drop (p div batch_size * batch_size) instances)"
  let ?D = "\<lambda>batch. map (\<lambda>row. {labels ! projr (argmax row)}) (projr (predict_function ?a (map data batch)))"
  from assms(1) have b: "0 < batch_size" by simp
  have sh: "list_all (\<lambda>batch. well_shaped (length batch) (length labels) (predict_function ?a (map data batch))) ?batches"
    using assms(4) by (simp add: set_target_labels_simps)
  have shaped: "\<exists>y. predict_function self (map data batch) = Inr y \<and> length y = length batch
                  \<and> (\<forall>row \<in> set y. length row = length labels)"
    if "batch \<in> set ?batches" for batch
    using assms(4) that by (intro well_shapedD) (simp add: list_all_iff)
  have lenD: "length (?D batch) = length batch" if "batch \<in> set ?batches" for batch
    using shaped[OF that] by (auto simp: set_target_labels_simps)
  have res: "predict_instances ?a instances batch_size =
          Inr (zip (map identifier instances) (concat (map ?D ?batches)))"
    using assms(2,3) set_target_labels_simps(2) sh b by (rule predict_instances_shaped)
  have len: "length (concat (map ?D ?batches)) = length instances"
    using length_concat_batches[of ?batches ?D] lenD divide_concat[OF b, of instances] by simp
  have nth: "concat (map ?D ?batches) ! p = ?D ?batch ! (p mod batch_size)"
    using b assms(5) lenD by (rule concat_batches_nth)
  have mem: "?batch \<in> set ?batches"
    using b assms(5) by (rule divide_batch_of)
  from shaped[OF mem] obtain y where y: "predict_function self (map data ?batch) = Inr y"
    and ylen: "length y = length ?batch" and cols: "\<forall>row \<in> set y. length row = length labels"
    by blast
  have "p mod batch_size < length ?batch"
  proof -
    have "p div batch_size * batch_size + p mod batch_size = p" by simp
    with assms(5) have "p mod batch_size < length instances - p div batch_size * batch_size"
      by linarith
    moreover have "p mod batch_size < batch_size" using b by simp
    ultimately show ?thesis by simp
  qed
  with ylen have i: "p mod batch_size < length y" by simp
  let ?row = "y ! (p mod batch_size)"
  from i have rmem: "?row \<in> set y" by simp
  with cols assms(3) have "?row \<noteq> []" by fastforce
  from argmax_spec[OF this] obtain j where j: "argmax ?row = Inr j" "j < length ?row"
    "\<forall>k < length ?row. ?row ! k \<le> ?row ! j" "\<forall>k < j. ?row ! k < ?row ! j"
    by blast
  from j(2) cols rmem have jl: "j < length labels" by simp
  have "?D ?batch ! (p mod batch_size) = {labels ! j}"
    using i j(1) by (simp add: set_target_labels_simps y)
  with nth have "zip (map identifier instances) (concat (map ?D ?batches)) ! p
                   = (identifier (instances ! p), {labels ! j})"
    using assms(5) len by simp
  moreover have "get_label_column_index ?a (labels ! j) = Inr j"
    using assms(2) jl
    by (simp add: get_label_column_index_def set_target_labels_simps column_index_distinct)
  ultimately show ?thesis
    using res y j by blast
qed

theorem predict_label_is_first_maximum_witness:
  "1 \<le> (2 :: nat) \<and> distinct [''punctuation'', ''no_punctuation'']
 \<and> [''punctuation'', ''no_punctuation''] \<noteq> []
 \<and> list_all (\<lambda>batch. well_shaped (length batch) (length [''punctuation'', ''no_punctuation''])
               (predict_function TEST_MODEL (map data batch)))
     (divide_iterable_in_lists three_instances 2)
 \<and> 2 < length three_instances
 \<and> (\<exists>res y label j.
           predict_instances (set_target_labels TEST_MODEL [''punctuation'', ''no_punctuation''])
             three_instances 2 = Inr res
         \<and> predict_function TEST_MODEL (map data (take 2 (drop (2 div 2 * 2) three_instances))) = Inr y
         \<and> res ! 2 = (identifier (three_instances ! 2), {label})
         \<and> get_label_column_index (set_target_labels TEST_MODEL [''punctuation'', ''no_punctuation'']) label
              = Inr j
         \<and> j < length (y ! (2 mod 2))
         \<and> (\<forall>k < length (y ! (2 mod 2)). y ! (2 mod 2) ! k \<le> y ! (2 mod 2) ! j)
         \<and> (\<forall>k < j. y ! (2 mod 2) ! k < y ! (2 mod 2) ! j))"
proof -
  have h1: "1 \<le> (2 :: nat)" by simp
  have h2: "distinct [''punctuation'', ''no_punctuation'']" by simp
  have h3: "[''punctuation'', ''no_punctuation''] \<noteq> []" by simp
  note h4 = three_instances_well_shaped
  have h5: "2 < length three_instances" by (simp add: three_instances_def)
  from predict_label_is_first_maximum[OF h1 h2 h3 h4 h5] h1 h2 h3 h4 h5 show ?thesis
    by (intro conjI) blast+
qed

section \<open>Fitting\<close>

text \<open>
  C5. \<open>fit_instances\<close> and \<open>fit_provider\<close> raise nothing, return \<open>None\<close> and leave
  the object as it was; \<open>predict_instances\<close> on the object after the call returns what
  it returns on the object before the call.
\<close>

theorem fit_is_noop:
  "fit_instances self instances labels = Inr ((), self)
 \<and> fit_provider self provider label_provider batch_size = Inr ((), self)
 \<and> (case fit_instances self instances labels of
       Inl e \<Rightarrow> False
     | Inr (r, self') \<Rightarrow> predict_instances self' xs n = predict_instances self xs n)
 \<and> (case fit_provider self provider label_provider batch_size of
       Inl e \<Rightarrow> False
     | Inr (r, self') \<Rightarrow> predict_instances self' xs n = predict_instances self xs n)"
  by (simp add: fit_instances_def fit_provider_def)

section \<open>Random combinations, one for each size\<close>

text \<open>
  C6. Let the random source keep the contract of the library. Then
  \<open>random_combinations\<close> raises nothing and returns a list whose lengths are the sizes
  from \<open>min(len(items), max(0, start))\<close> to \<open>len(items)\<close>, each once and in
  increasing order, and every combination is a subsequence of \<open>items\<close>: elements of
  \<open>items\<close> at distinct positions, in their original order. For the empty sequence and
  \<open>start = 1\<close> the result is the list that holds the empty combination only.
\<close>

theorem random_combinations_one_per_size:
  assumes "valid_random_source R"
  shows "(\<exists>res g'. random_combinations R g (items :: 'a list) start = Inr (res, g')
            \<and> map (\<lambda>c. int (length c)) res = [min (int (length items)) (max 0 start) .. int (length items)]
            \<and> list_all (\<lambda>c. subseq c items) res)
       \<and> (\<exists>g'. random_combinations R g ([] :: 'a list) 1 = Inr ([[]], g'))"
proof -
  have general: "\<exists>res g'. random_combinations R g items start = Inr (res, g')
            \<and> map (\<lambda>c. int (length c)) res = [min (int (length items)) (max 0 start) .. int (length items)]
            \<and> list_all (\<lambda>c. subseq c items) res" for items :: "'a list" and start
    unfolding random_combinations_def Let_def
    using assms by (rule random_combination_each_ok) auto
  from general[of "[]" 1] obtain res g'
    where "random_combinations R g ([] :: 'a list) 1 = Inr (res, g')"
      and "map (\<lambda>c. int (length c)) res = [0]"
    by auto
  moreover from this(2) have "res = [[]]" by (cases res) auto
  ultimately have "\<exists>g'. random_combinations R g ([] :: 'a list) 1 = Inr ([[]], g')" by blast
  with general[of items start] show ?thesis by blast
qed

theorem random_combinations_one_per_size_witness:
  "valid_random_source last_first_source
 \<and> (\<exists>res g'. random_combinations last_first_source () [1, 2, 3 :: nat] 1 = Inr (res, g')
            \<and> map (\<lambda>c. int (length c)) res = [min (int (length [1, 2, 3 :: nat])) (max 0 1) .. int (length [1, 2, 3 :: nat])]
            \<and> list_all (\<lambda>c. subseq c [1, 2, 3 :: nat]) res)
 \<and> (\<exists>g'. random_combinations last_first_source () ([] :: nat list) 1 = Inr ([[]], g'))"
  using last_first_source_valid
    random_combinations_one_per_size[OF last_first_source_valid, of "()" "[1, 2, 3 :: nat]" 1]
  by (intro conjI) blast+

section \<open>Failures of the classifier\<close>

text \<open>
  Two per-instance functions that raise nothing, and classifiers built from them by
  \<open>from_callable\<close> that fail all the same. With a function that returns a vector
  without elements, the matrix has a row without columns and taking the index of its
  maximum in \<open>predict_instances\<close> raises \<open>ValueError\<close>. With a function whose
  vectors differ in length, stacking them raises \<open>ValueError\<close> inside the function
  \<open>from_callable\<close> stores, before any decoding, so \<open>predict_proba_instances\<close> fails.
\<close>

theorem failure_without_raised_error:
  "no_scores ''x'' = Inr []
 \<and> predict_instances (from_callable no_scores [''a'']) one_instance 200 = Inl ValueError
 \<and> ragged_scores ''x'' = Inr [1] \<and> ragged_scores ''y'' = Inr [1, 2]
 \<and> predict_proba_instances (from_callable ragged_scores [''a'', ''b'']) two_instances 2 = Inl ValueError"
  by (simp add: from_callable_def init_def batched_predict_function_def no_scores_def ragged_scores_def
      vstack_def predict_instances_def predict_proba_instances_def one_instance_def two_instances_def
      divide_iterable_in_lists.simps pred_batch_def pred_proba_batch_def pred_proba_batch_raw_def
      argmax_axis1_def)

text \<open>
  C7, as amended, for a batch size of at least 1. \<open>get_label_column_index\<close> returns
  what the encoder returns: a column index for a label of the current label set (for
  distinct labels, the position of the label), the encoder's error for an unknown label
  otherwise. No batch is empty. A step of \<open>predict_proba_instances_raw\<close> raises exactly
  what the stored prediction function raises on the batch of that step, and
  \<open>predict_proba_instances\<close> fails exactly when the stored function raises on some
  batch, with an exception that function raised. \<open>predict_instances\<close> fails exactly
  when, on some batch, the stored function raises, or returns a matrix with a row
  without columns (\<open>ValueError\<close> from the index of the maximum), or returns a matrix
  with a row whose index of the maximum the encoder fails to decode (the encoder's error,
  unchanged). The stored function is the one given to \<open>from_batched_callable\<close>; the
  one \<open>from_callable\<close> stores fails exactly when the per-instance function raises on
  an instance (the same exception), or when it is given no instance or score vectors of
  different lengths (\<open>ValueError\<close> from stacking them).
\<close>

theorem adapter_failures:
  assumes "1 \<le> batch_size"
  shows
  "get_label_column_index self label = encoder_get_label_column_index (encoder self) label
 \<and> (label \<in> fst ` set (mapping (encoder self)) \<longrightarrow> (\<exists>i. get_label_column_index self label = Inr i))
 \<and> (label \<notin> fst ` set (mapping (encoder self)) \<longrightarrow> get_label_column_index self label = Inl UnknownLabel)
 \<and> (distinct labels \<longrightarrow>
       (\<forall>i < length labels. get_label_column_index (set_target_labels self labels) (labels ! i) = Inr i))
 \<and> (\<forall>batch \<in> set (divide_iterable_in_lists instances batch_size). batch \<noteq> [])
 \<and> (\<forall>k < length (predict_proba_instances_raw self instances batch_size). \<forall>e.
        predict_proba_instances_raw self instances batch_size ! k = Inl e \<longleftrightarrow>
        predict_function self (map data (take batch_size (drop (k * batch_size) instances))) = Inl e)
 \<and> (\<forall>e. predict_proba_instances self instances batch_size = Inl e \<longrightarrow>
        (\<exists>batch \<in> set (divide_iterable_in_lists instances batch_size).
           predict_function self (map data batch) = Inl e))
 \<and> ((\<exists>batch \<in> set (divide_iterable_in_lists instances batch_size).
         \<exists>e. predict_function self (map data batch) = Inl e) \<longrightarrow>
      (\<exists>e. predict_proba_instances self instances batch_size = Inl e))
 \<and> (\<forall>e. predict_instances self instances batch_size = Inl e \<longrightarrow>
        (\<exists>batch \<in> set (divide_iterable_in_lists instances batch_size).
           predict_function self (map data batch) = Inl e
         \<or> (\<exists>y. predict_function self (map data batch) = Inr y
              \<and> (e = ValueError \<and> [] \<in> set y
                 \<or> (\<exists>row \<in> set y. \<exists>j. argmax row = Inr j
                      \<and> decode_vector (encoder self) j = Inl e)))))
 \<and> ((\<exists>batch \<in> set (divide_iterable_in_lists instances batch_size).
         (\<exists>e. predict_function self (map data batch) = Inl e)
       \<or> (\<exists>y. predict_function self (map data batch) = Inr y
            \<and> ([] \<in> set y
               \<or> (\<exists>row \<in> set y. \<exists>j e. argmax row = Inr j
                    \<and> decode_vector (encoder self) j = Inl e)))) \<longrightarrow>
      (\<exists>e. predict_instances self instances batch_size = Inl e))
 \<and> predict_function (from_batched_callable h labels) = h
 \<and> predict_function (from_callable f labels) = batched_predict_function f
 \<and> (\<forall>e. batched_predict_function f ds = Inl e \<longrightarrow>
        (\<exists>d \<in> set ds. f d = Inl e)
      \<or> (e = ValueError \<and> (ds = [] \<or> (\<exists>d1 \<in> set ds. \<exists>d2 \<in> set ds. \<exists>v1 v2.
             f d1 = Inr v1 \<and> f d2 = Inr v2 \<and> length v1 \<noteq> length v2))))
 \<and> (((\<exists>d \<in> set ds. \<exists>e. f d = Inl e) \<or> ds = []
       \<or> (\<exists>d1 \<in> set ds. \<exists>d2 \<in> set ds. \<exists>v1 v2.
             f d1 = Inr v1 \<and> f d2 = Inr v2 \<and> length v1 \<noteq> length v2)) \<longrightarrow>
      (\<exists>e. batched_predict_function f ds = Inl e))"
proof -
  let ?batches = "divide_iterable_in_lists instances batch_size"
  have A0: "get_label_column_index self label = encoder_get_label_column_index (encoder self) label"
    by (simp add: get_label_column_index_def)
  have A3: "get_label_column_index (set_target_labels self labels) (labels ! i) = Inr i"
    if "distinct labels" "i < length labels" for i
    using that by (simp add: get_label_column_index_def set_target_labels_simps column_index_distinct)
  have F: "\<forall>batch \<in> set ?batches. batch \<noteq> []"
    by (simp add: divide_nonempty)
  have B: "predict_proba_instances_raw self instances batch_size ! k = Inl e \<longleftrightarrow>
        predict_function self (map data (take batch_size (drop (k * batch_size) instances))) = Inl e"
    if "k < length (predict_proba_instances_raw self instances batch_size)" for k e
    using that by (simp add: predict_proba_instances_raw_def divide_nth pred_proba_batch_raw_Inl_iff)
  have C1: "\<exists>batch \<in> set ?batches. predict_function self (map data batch) = Inl e"
    if "predict_proba_instances self instances batch_size = Inl e" for e
  proof -
    from that have "map_raise (pred_proba_batch self) ?batches = Inl e"
      by (simp add: predict_proba_instances_def split: sum.splits)
    then obtain batch where "batch \<in> set ?batches" "pred_proba_batch self batch = Inl e"
      by (blast dest: map_raise_Inl)
    then show ?thesis by (auto simp: pred_proba_batch_Inl_iff)
  qed
  have C2: "\<exists>e. predict_proba_instances self instances batch_size = Inl e"
    if "\<exists>batch \<in> set ?batches. \<exists>e. predict_function self (map data batch) = Inl e"
  proof -
    from that have "\<exists>batch \<in> set ?batches. \<exists>e. pred_proba_batch self batch = Inl e"
      by (simp only: pred_proba_batch_Inl_iff)
    with map_raise_fails_iff[of "pred_proba_batch self" ?batches]
    obtain e where "map_raise (pred_proba_batch self) ?batches = Inl e" by blast
    then show ?thesis by (simp add: predict_proba_instances_def)
  qed
  have D1: "\<exists>batch \<in> set ?batches.
           predict_function self (map data batch) = Inl e
         \<or> (\<exists>y. predict_function self (map data batch) = Inr y
              \<and> (e = ValueError \<and> [] \<in> set y
                 \<or> (\<exists>row \<in> set y. \<exists>j. argmax row = Inr j
                      \<and> decode_vector (encoder self) j = Inl e)))"
    if "predict_instances self instances batch_size = Inl e" for e
  proof -
    from that have "map_raise (pred_batch self) ?batches = Inl e"
      by (simp add: predict_instances_def split: sum.splits)
    then obtain batch where "batch \<in> set ?batches" "pred_batch self batch = Inl e"
      by (blast dest: map_raise_Inl)
    then show ?thesis using pred_batch_Inl by blast
  qed
  have D2: "\<exists>e. predict_instances self instances batch_size = Inl e"
    if "\<exists>batch \<in> set ?batches.
         (\<exists>e. predict_function self (map data batch) = Inl e)
       \<or> (\<exists>y. predict_function self (map data batch) = Inr y
            \<and> ([] \<in> set y
               \<or> (\<exists>row \<in> set y. \<exists>j e. argmax row = Inr j
                    \<and> decode_vector (encoder self) j = Inl e)))"
  proof -
    from that obtain batch where b: "batch \<in> set ?batches"
      and "(\<exists>e. predict_function self (map data batch) = Inl e)
       \<or> (\<exists>y. predict_function self (map data batch) = Inr y
            \<and> ([] \<in> set y
               \<or> (\<exists>row \<in> set y. \<exists>j e. argmax row = Inr j
                    \<and> decode_vector (encoder self) j = Inl e)))"
      by blast
    from pred_batch_fails[OF this(2)] b
    have "\<exists>batch \<in> set ?batches. \<exists>e. pred_batch self batch = Inl e" by blast
    with map_raise_fails_iff[of "pred_batch self" ?batches]
    obtain e where "map_raise (pred_batch self) ?batches = Inl e" by blast
    then show ?thesis by (simp add: predict_instances_def)
  qed
  have E0: "predict_function (from_batched_callable h labels) = h"
    "predict_function (from_callable f labels) = batched_predict_function f"
    by (simp_all add: from_batched_callable_def from_callable_def init_def)
  note E1 = batched_predict_function_Inl[of f ds]
  note E2 = batched_predict_function_fails[of ds f]
  show ?thesis
    using A0 known_label_column[of label self] unknown_label_column[of label self] A3 F B C1 C2 D1 D2 E0 E1 E2
    by (intro conjI allI impI) blast+
qed

theorem adapter_failures_witness:
  "1 \<le> (200 :: nat)
 \<and> ''punctuation'' \<in> fst ` set (mapping (encoder TEST_MODEL))
 \<and> (\<exists>i. get_label_column_index TEST_MODEL ''punctuation'' = Inr i)
 \<and> ''other'' \<notin> fst ` set (mapping (encoder TEST_MODEL))
 \<and> get_label_column_index TEST_MODEL ''other'' = Inl UnknownLabel
 \<and> distinct [''punctuation'', ''no_punctuation'']
 \<and> get_label_column_index (set_target_labels TEST_MODEL [''punctuation'', ''no_punctuation''])
       ([''punctuation'', ''no_punctuation''] ! 1) = Inr 1
 \<and> predict_proba_instances (from_batched_callable raising_scores [''a'']) one_instance 200
      = Inl (Raised ''boom'')
 \<and> (\<exists>batch \<in> set (divide_iterable_in_lists one_instance 200).
        predict_function (from_batched_callable raising_scores [''a'']) (map data batch)
          = Inl (Raised ''boom''))
 \<and> predict_instances (from_callable no_scores [''a'']) one_instance 200 = Inl ValueError
 \<and> (\<exists>batch \<in> set (divide_iterable_in_lists one_instance 200).
        \<exists>y. predict_function (from_callable no_scores [''a'']) (map data batch) = Inr y \<and> [] \<in> set y)
 \<and> batched_predict_function ragged_scores [''x'', ''y''] = Inl ValueError
 \<and> (\<exists>d1 \<in> set [''x'', ''y'']. \<exists>d2 \<in> set [''x'', ''y'']. \<exists>v1 v2.
        ragged_scores d1 = Inr v1 \<and> ragged_scores d2 = Inr v2 \<and> length v1 \<noteq> length v2)
 \<and> (\<exists>e. predict_proba_instances (from_batched_callable raising_scores [''a'']) one_instance 200 = Inl e)
 \<and> (\<exists>e. predict_instances (from_callable no_scores [''a'']) one_instance 200 = Inl e)
 \<and> (\<exists>e. batched_predict_function ragged_scores [''x'', ''y''] = Inl e)"
proof -
  have h: "1 \<le> (200 :: nat)" by simp
  have enc: "mapping (encoder TEST_MODEL) = [(''punctuation'', 0), (''no_punctuation'', 1)]"
    by (simp add: TEST_MODEL_def from_callable_def init_def DictionaryEncoder_init_def
        enumerate_dict_def enumerate_eq_zip)
  have a1: "''punctuation'' \<in> fst ` set (mapping (encoder TEST_MODEL))" by (simp add: enc)
  have a2: "''other'' \<notin> fst ` set (mapping (encoder TEST_MODEL))" by (simp add: enc)
  have a3: "distinct [''punctuation'', ''no_punctuation'']" by simp
  have a4: "predict_proba_instances (from_batched_callable raising_scores [''a'']) one_instance 200
      = Inl (Raised ''boom'')"
    by (simp add: predict_proba_instances_def one_batch pred_proba_batch_def pred_proba_batch_raw_def
        from_batched_callable_def init_def raising_scores_def)
  have a5: "predict_instances (from_callable no_scores [''a'']) one_instance 200 = Inl ValueError"
    by (simp add: from_callable_def init_def batched_predict_function_def no_scores_def vstack_def
      predict_instances_def one_instance_def divide_iterable_in_lists.simps pred_batch_def
      pred_proba_batch_raw_def argmax_axis1_def)
  have a6: "batched_predict_function ragged_scores [''x'', ''y''] = Inl ValueError"
    by (simp add: batched_predict_function_def ragged_scores_def vstack_def)
  have pf: "predict_function (from_callable no_scores [''a'']) (map data one_instance) = Inr [[]]"
    by (simp add: from_callable_def init_def batched_predict_function_def no_scores_def vstack_def
        one_instance_def)
  note t1 = adapter_failures[OF h, where self = TEST_MODEL and label = "''punctuation''"
      and labels = "[''punctuation'', ''no_punctuation'']" and instances = one_instance
      and h = raising_scores and f = ragged_scores and ds = "[''x'', ''y'']"]
  note t2 = adapter_failures[OF h, where self = TEST_MODEL and label = "''other''"
      and labels = "[''punctuation'', ''no_punctuation'']" and instances = one_instance
      and h = raising_scores and f = ragged_scores and ds = "[''x'', ''y'']"]
  note t3 = adapter_failures[OF h, where self = "from_batched_callable raising_scores [''a'']"
      and label = "''a''" and labels = "[''punctuation'', ''no_punctuation'']" and instances = one_instance
      and h = raising_scores and f = ragged_scores and ds = "[''x'', ''y'']"]
  note t4 = adapter_failures[OF h, where self = "from_callable no_scores [''a'']"
      and label = "''a''" and labels = "[''punctuation'', ''no_punctuation'']" and instances = one_instance
      and h = raising_scores and f = ragged_scores and ds = "[''x'', ''y'']"]
  have lt: "1 < length [''punctuation'', ''no_punctuation'']" by simp
  note c1 = t1[THEN conjunct2, THEN conjunct1, rule_format, OF a1]
  note c2 = t2[THEN conjunct2, THEN conjunct2, THEN conjunct1, rule_format, OF a2]
  note c3 = t1[THEN conjunct2, THEN conjunct2, THEN conjunct2, THEN conjunct1, rule_format, OF a3 lt]
  note c4 = t3[THEN conjunct2, THEN conjunct2, THEN conjunct2, THEN conjunct2, THEN conjunct2, THEN conjunct2, THEN conjunct1, rule_format, OF a4]
  from t4[THEN conjunct2, THEN conjunct2, THEN conjunct2, THEN conjunct2, THEN conjunct2, THEN conjunct2, THEN conjunct2, THEN conjunct2, THEN conjunct1, rule_format, OF a5]
  have c5: "\<exists>batch \<in> set (divide_iterable_in_lists one_instance 200).
        \<exists>y. predict_function (from_callable no_scores [''a'']) (map data batch) = Inr y \<and> [] \<in> set y"
    by (simp add: one_batch pf)
  from t1[THEN conjunct2, THEN conjunct2, THEN conjunct2, THEN conjunct2, THEN conjunct2, THEN conjunct2, THEN conjunct2, THEN conjunct2, THEN conjunct2, THEN conjunct2, THEN conjunct2, THEN conjunct2, THEN conjunct1, rule_format, OF a6]
  have c6: "\<exists>d1 \<in> set [''x'', ''y'']. \<exists>d2 \<in> set [''x'', ''y'']. \<exists>v1 v2.
        ragged_scores d1 = Inr v1 \<and> ragged_scores d2 = Inr v2 \<and> length v1 \<noteq> length v2"
    by (simp add: ragged_scores_def)
  from c4 have "\<exists>batch \<in> set (divide_iterable_in_lists one_instance 200).
        \<exists>e. predict_function (from_batched_callable raising_scores [''a'']) (map data batch) = Inl e"
    by blast
  note c7 = t3[THEN conjunct2, THEN conjunct2, THEN conjunct2, THEN conjunct2, THEN conjunct2, THEN conjunct2, THEN conjunct2, THEN conjunct1, rule_format, OF this]
  from c5 have "\<exists>batch \<in> set (divide_iterable_in_lists one_instance 200).
         (\<exists>e. predict_function (from_callable no_scores [''a'']) (map data batch) = Inl e)
       \<or> (\<exists>y. predict_function (from_callable no_scores [''a'']) (map data batch) = Inr y
            \<and> ([] \<in> set y
               \<or> (\<exists>row \<in> set y. \<exists>j e. argmax row = Inr j
                    \<and> decode_vector (encoder (from_callable no_scores [''a''])) j = Inl e)))"
    by blast
  note c8 = t4[THEN conjunct2, THEN conjunct2, THEN conjunct2, THEN conjunct2, THEN conjunct2, THEN conjunct2, THEN conjunct2, THEN conjunct2, THEN conjunct2, THEN conjunct1, rule_format, OF this]
  from c6 have "(\<exists>d \<in> set [''x'', ''y'']. \<exists>e. ragged_scores d = Inl e) \<or> [''x'', ''y''] = []
       \<or> (\<exists>d1 \<in> set [''x'', ''y'']. \<exists>d2 \<in> set [''x'', ''y'']. \<exists>v1 v2.
             ragged_scores d1 = Inr v1 \<and> ragged_scores d2 = Inr v2 \<and> length v1 \<noteq> length v2)"
    by (intro disjI2)
  note c9 = t1[THEN conjunct2, THEN conjunct2, THEN conjunct2, THEN conjunct2, THEN conjunct2, THEN conjunct2, THEN conjunct2, THEN conjunct2, THEN conjunct2, THEN conjunct2, THEN conjunct2, THEN conjunct2, THEN conjunct2, rule_format, OF this]
  from h a1 c1 a2 c2 a3 c3 a4 c4 a5 c5 a6 c6 c7 c8 c9 show ?thesis
    by (intro conjI)
qed

section \<open>The encoder after set_target_labels\<close>

text \<open>
  With a label given twice, the later position replaces the earlier one in the
  dictionary the encoder is built from: for the labels \<open>a, b, a\<close> the dictionary is
  \<open>{a: 2, b: 1}\<close>, so the indices it assigns are 1 and 2, and index 0 is assigned to
  no label.
\<close>

theorem repeated_label_leaves_gap:
  "enumerate_dict [''a'', ''b'', ''a''] = [(''a'', 2), (''b'', 1)]
 \<and> mapping (encoder (set_target_labels TEST_MODEL [''a'', ''b'', ''a''])) = [(''a'', 2), (''b'', 1)]
 \<and> snd ` set (mapping (encoder (set_target_labels TEST_MODEL [''a'', ''b'', ''a'']))) = {1, 2}"
  by (simp add: set_target_labels_def DictionaryEncoder_init_def enumerate_dict_def enumerate_eq_zip
      insert_commute numeral_2_eq_2)

text \<open>
  C8, as amended. After \<open>set_target_labels(labels)\<close>, and after construction alike, the
  dictionary the encoder is built from holds the supplied labels, each once, so every
  label has one column index in it. When no label is supplied twice, the label at
  position \<open>i\<close> has index \<open>i\<close>, and the assigned column indices are exactly
  \<open>0, \<dots>, len(labels) - 1\<close>.
\<close>

theorem set_target_labels_encoder:
  "fst ` set (mapping (encoder (set_target_labels self labels))) = set labels
 \<and> distinct (map fst (mapping (encoder (set_target_labels self labels))))
 \<and> mapping (encoder (init f labels)) = mapping (encoder (set_target_labels self labels))
 \<and> (distinct labels \<longrightarrow>
        mapping (encoder (set_target_labels self labels)) = zip labels [0..<length labels]
      \<and> snd ` set (mapping (encoder (set_target_labels self labels))) = {..<length labels})"
proof -
  have m: "mapping (encoder (set_target_labels self labels)) = enumerate_dict labels"
    by (simp add: set_target_labels_def DictionaryEncoder_init_def)
  have i: "mapping (encoder (init f labels)) = enumerate_dict labels"
    by (simp add: init_def DictionaryEncoder_init_def)
  have "snd ` set (zip labels [0..<length labels]) = set (map snd (zip labels [0..<length labels]))"
    by (simp only: set_map)
  also have "\<dots> = {..<length labels}" by (simp add: atLeast0LessThan)
  finally have "snd ` set (zip labels [0..<length labels]) = {..<length labels}" .
  then show ?thesis
    by (simp add: m i enumerate_dict_keys enumerate_dict_distinct_keys enumerate_dict_distinct)
qed

theorem set_target_labels_encoder_witness:
  "distinct [''punctuation'', ''no_punctuation'']
 \<and> mapping (encoder (set_target_labels TEST_MODEL [''punctuation'', ''no_punctuation'']))
      = zip [''punctuation'', ''no_punctuation''] [0..<length [''punctuation'', ''no_punctuation'']]
 \<and> snd ` set (mapping (encoder (set_target_labels TEST_MODEL [''punctuation'', ''no_punctuation''])))
      = {..<length [''punctuation'', ''no_punctuation'']}"
proof -
  have h: "distinct [''punctuation'', ''no_punctuation'']" by simp
  from set_target_labels_encoder[of TEST_MODEL "[''punctuation'', ''no_punctuation'']"] h
  show ?thesis by blast
qed

section \<open>set_target_labels and the prediction function\<close>

text \<open>
  C9. \<open>set_target_labels\<close> changes the encoder only: the stored prediction function is
  the one stored before, the one \<open>__init__\<close> was given, and
  \<open>predict_proba_instances_raw\<close> yields the same keys and score matrices before and
  after the call.
\<close>

theorem set_target_labels_keeps_predict_function:
  "predict_function (set_target_labels self labels) = predict_function self
 \<and> predict_proba_instances_raw (set_target_labels self labels) instances batch_size
      = predict_proba_instances_raw self instances batch_size
 \<and> predict_function (init f labels) = f"
  by (simp add: set_target_labels_def predict_proba_instances_raw_def pred_proba_batch_raw_def init_def)

section \<open>The raw generator\<close>

text \<open>
  C10. For a batch size of at least 1 and \<open>n\<close> instances,
  \<open>predict_proba_instances_raw\<close> takes \<open>\<lceil>n / batch_size\<rceil>\<close> steps, one for each
  batch. Step \<open>k\<close> handles the instances from position \<open>k * batch_size\<close> on, at most
  \<open>batch_size\<close> of them, and yields their identifiers in order, paired with the matrix
  the prediction function returns for their data, unchanged; when the prediction function
  raises on that batch, the step raises the same exception.
\<close>

theorem raw_yields_one_pair_per_batch:
  assumes "1 \<le> batch_size"
  shows "int (length (predict_proba_instances_raw self instances batch_size))
           = \<lceil>real (length instances) / real batch_size\<rceil>
       \<and> (\<forall>k < length (predict_proba_instances_raw self instances batch_size).
            predict_proba_instances_raw self instances batch_size ! k =
              (case predict_function self (map data (take batch_size (drop (k * batch_size) instances))) of
                 Inl e \<Rightarrow> Inl e
               | Inr y \<Rightarrow> Inr (map identifier (take batch_size (drop (k * batch_size) instances)), y)))"
proof -
  from assms have b: "0 < batch_size" by simp
  have "int (length (divide_iterable_in_lists instances batch_size))
          = \<lceil>real (length instances) / real batch_size\<rceil>"
    using b by (simp only: divide_length ceil_div)
  then show ?thesis
    by (simp add: predict_proba_instances_raw_def pred_proba_batch_raw_def divide_nth)
qed

theorem raw_yields_one_pair_per_batch_witness:
  "1 \<le> (2 :: nat)
 \<and> int (length (predict_proba_instances_raw TEST_MODEL three_instances 2))
      = \<lceil>real (length three_instances) / real (2 :: nat)\<rceil>
 \<and> length (predict_proba_instances_raw TEST_MODEL three_instances 2) = 2
 \<and> predict_proba_instances_raw TEST_MODEL three_instances 2 ! 1 = Inr ([2], [[0.7, 0.3]])"
proof -
  have h1: "1 \<le> (2 :: nat)" by simp
  have len: "length (predict_proba_instances_raw TEST_MODEL three_instances 2) = 2"
    by (simp add: predict_proba_instances_raw_def three_instances_def divide_iterable_in_lists.simps)
  have pf: "predict_function TEST_MODEL [''a''] = Inr [[0.7, 0.3]]"
    by (simp add: TEST_MODEL_def from_callable_def init_def batched_predict_function_def
        predict_fn_def vstack_def)
  note t = raw_yields_one_pair_per_batch[OF h1, of TEST_MODEL three_instances]
  from t have count: "int (length (predict_proba_instances_raw TEST_MODEL three_instances 2))
          = \<lceil>real (length three_instances) / real (2 :: nat)\<rceil>"
    by (rule conjunct1)
  from t have "\<forall>k < length (predict_proba_instances_raw TEST_MODEL three_instances 2).
            predict_proba_instances_raw TEST_MODEL three_instances 2 ! k =
              (case predict_function TEST_MODEL (map data (take 2 (drop (k * 2) three_instances))) of
                 Inl e \<Rightarrow> Inl e
               | Inr y \<Rightarrow> Inr (map identifier (take 2 (drop (k * 2) three_instances)), y))"
    by (rule conjunct2)
  moreover from len have "1 < length (predict_proba_instances_raw TEST_MODEL three_instances 2)"
    by simp
  ultimately have "predict_proba_instances_raw TEST_MODEL three_instances 2 ! 1 =
              (case predict_function TEST_MODEL (map data (take 2 (drop (1 * 2) three_instances))) of
                 Inl e \<Rightarrow> Inl e
               | Inr y \<Rightarrow> Inr (map identifier (take 2 (drop (1 * 2) three_instances)), y))"
    by blast
  then have "predict_proba_instances_raw TEST_MODEL three_instances 2 ! 1 = Inr ([2], [[0.7, 0.3]])"
    by (simp add: three_instances_def pf)
  with h1 count len show ?thesis by blast
qed

end
